theory Spec2Isabelle
  imports Main "HOL-Library.Sublist" "HOL-Library.AList" "HOL-Library.Char_ord"
    "HOL-Library.List_Lexorder"
begin

section \<open>Python values and compiled modules\<close>

text \<open>
  The script \<^verbatim>\<open>ovpn.py\<close> patches the archive \<^verbatim>\<open>pyovpn-*.egg\<close>: it renames the compiled
  module \<^verbatim>\<open>pyovpn/lic/uprop.pyc\<close> to \<^verbatim>\<open>uprop2.pyc\<close> and puts a generated module in
  its place. Two things are modelled: the file-system pipeline of \<^verbatim>\<open>patch()\<close> and the
  meaning of the generated module when Python imports it.

  A function object is either a function of the original module (opaque, identified by a
  number and interpreted by a table passed to the evaluator) or the \<^verbatim>\<open>new_figure\<close> that
  the generated module defines; the latter remembers the module whose globals it reads.
  Class objects live in a heap and are referred to by address, so that two names can be
  bound to the same class.
\<close>

datatype func = Native nat | NewFigure string

datatype pyval =
    VNone
  | VInt int
  | VStr string
  | VFunc func
  | VClass nat
  | VModule string
  | VDict "(string \<times> pyval) list"

type_synonym namespace = "(string \<times> pyval) list"

text \<open>
  What a \<^verbatim>\<open>.pyc\<close> file holds: the bytecode of the generated module, or the bytecode of
  a module of the product, described by the names it binds at import and the classes
  (address and attributes) it creates.
\<close>

datatype pycode = CFacade | COrig namespace "(nat \<times> namespace) list"

section \<open>Files, archives and the file system\<close>

type_synonym path = "string list"

datatype compression = ZIP_STORED | ZIP_DEFLATED

datatype content =
    Raw nat
  | FacadeSrc
  | Pyc pycode
  | Zip compression "(path \<times> entry) list"
and entry = EDir | EFile content

datatype node = Dir | File content

text \<open>
  The file system is an association list from absolute paths (lists of components) to
  nodes, in the order in which a directory scan returns them. The root is always a
  directory.
\<close>

type_synonym fs = "(path \<times> node) list"

definition lookup :: "fs \<Rightarrow> path \<Rightarrow> node option" where
  "lookup fs p = (if p = [] then Some Dir else map_of fs p)"

definition exists :: "fs \<Rightarrow> path \<Rightarrow> bool" where
  "exists fs p = (lookup fs p \<noteq> None)"

definition is_dir :: "fs \<Rightarrow> path \<Rightarrow> bool" where
  "is_dir fs p = (lookup fs p = Some Dir)"

definition is_file :: "fs \<Rightarrow> path \<Rightarrow> bool" where
  "is_file fs p = (case lookup fs p of Some (File c) \<Rightarrow> True | _ \<Rightarrow> False)"

definition put :: "path \<Rightarrow> node \<Rightarrow> fs \<Rightarrow> fs" where
  "put p n fs = AList.update p n fs"

definition remove :: "path \<Rightarrow> fs \<Rightarrow> fs" where
  "remove p fs = AList.delete p fs"

datatype exn =
    PermissionError
  | BadZipFile
  | SubprocessError
  | FileNotFoundError
  | FileExistsError
  | IsADirectoryError
  | NotADirectoryError
  | SameFileError
  | OSError
  | AttributeError
  | TypeError
  | ImportError
  | NameError
  | KeyboardInterrupt

text \<open>\<^verbatim>\<open>except Exception\<close> catches everything but the interrupts.\<close>

definition is_Exception :: "exn \<Rightarrow> bool" where
  "is_Exception e = (e \<noteq> KeyboardInterrupt)"

text \<open>Opening a file for writing: the parent must be a directory, the target must not be one.\<close>

definition write_file :: "path \<Rightarrow> content \<Rightarrow> fs \<Rightarrow> exn + fs" where
  "write_file p c fs =
     (if is_dir fs p then Inl IsADirectoryError
      else if is_dir fs (butlast p) then Inr (put p (File c) fs)
      else if exists fs (butlast p) then Inl NotADirectoryError
      else Inl FileNotFoundError)"

definition mkdir :: "path \<Rightarrow> fs \<Rightarrow> exn + fs" where
  "mkdir p fs =
     (if exists fs p then Inl FileExistsError
      else if is_dir fs (butlast p) then Inr (put p Dir fs)
      else if exists fs (butlast p) then Inl NotADirectoryError
      else Inl FileNotFoundError)"

text \<open>
  \<^verbatim>\<open>shutil.copy2(src, dst)\<close>: when \<^verbatim>\<open>dst\<close> is a directory the copy goes into it under the
  name of \<^verbatim>\<open>src\<close>.
\<close>

definition copy2 :: "path \<Rightarrow> path \<Rightarrow> fs \<Rightarrow> exn + fs" where
  "copy2 src dst fs =
     (case lookup fs src of
        None \<Rightarrow> Inl FileNotFoundError
      | Some Dir \<Rightarrow> Inl IsADirectoryError
      | Some (File c) \<Rightarrow>
          (let dst' = (if is_dir fs dst then dst @ [last src] else dst)
           in if dst' = src then Inl SameFileError else write_file dst' c fs))"

text \<open>
  \<^verbatim>\<open>Path.rename\<close> on POSIX: a file silently replaces an existing file; a directory
  replaces only an empty directory, and takes everything below it along.
\<close>

definition has_children :: "fs \<Rightarrow> path \<Rightarrow> bool" where
  "has_children fs d = list_ex (\<lambda>(q, n). strict_prefix d q) fs"

definition move_tree :: "path \<Rightarrow> path \<Rightarrow> fs \<Rightarrow> fs" where
  "move_tree src dst fs =
     map (\<lambda>(q, n). if prefix src q then (dst @ drop (length src) q, n) else (q, n))
       (remove dst fs)"

definition rename :: "path \<Rightarrow> path \<Rightarrow> fs \<Rightarrow> exn + fs" where
  "rename src dst fs =
     (case lookup fs src of
        None \<Rightarrow> Inl FileNotFoundError
      | Some (File c) \<Rightarrow>
          (if src = dst then Inr fs
           else if is_dir fs dst then Inl IsADirectoryError
           else if is_dir fs (butlast dst) then Inr (put dst (File c) (remove src fs))
           else if exists fs (butlast dst) then Inl NotADirectoryError
           else Inl FileNotFoundError)
      | Some Dir \<Rightarrow>
          (if src = dst then Inr fs
           else if is_file fs dst then Inl NotADirectoryError
           else if has_children fs dst then Inl OSError
           else if prefix src dst then Inl OSError
           else if is_dir fs (butlast dst) then Inr (move_tree src dst fs)
           else if exists fs (butlast dst) then Inl NotADirectoryError
           else Inl FileNotFoundError))"

text \<open>\<^verbatim>\<open>Path.unlink(missing_ok=True)\<close>.\<close>

definition unlink_missing_ok :: "path \<Rightarrow> fs \<Rightarrow> exn + fs" where
  "unlink_missing_ok p fs =
     (if is_dir fs p then Inl IsADirectoryError else Inr (remove p fs))"

text \<open>
  \<^verbatim>\<open>shutil.rmtree(d, ignore_errors=True)\<close>: everything at and below \<^verbatim>\<open>d\<close> goes, except
  the paths whose removal fails (\<open>stuck\<close>) and, because they are then not empty, the
  directories above those. No error is raised.
\<close>

definition rmtree_ignore_errors :: "path list \<Rightarrow> path \<Rightarrow> fs \<Rightarrow> fs" where
  "rmtree_ignore_errors stuck d fs =
     filter (\<lambda>(q, n). \<not> prefix d q \<or> list_ex (\<lambda>s. prefix q s) stuck) fs"

subsection \<open>Archives\<close>

text \<open>
  \<^verbatim>\<open>ZipFile.extractall\<close>: the members are extracted in order; the components
  \<^verbatim>\<open>''\<close>, \<^verbatim>\<open>.\<close> and \<^verbatim>\<open>..\<close> of a member name are dropped; missing directories above a
  member are created; a directory member is created unless it is there already; a file
  member is opened for writing at its place below the destination. A member of which no
  component is left is placed at the destination itself: for a directory member nothing
  happens when the destination is a directory, for a file member the open then raises
  \<^verbatim>\<open>IsADirectoryError\<close>.
\<close>

definition sanitize :: "path \<Rightarrow> path" where
  "sanitize r = filter (\<lambda>c. c \<noteq> [] \<and> c \<noteq> ''.'' \<and> c \<noteq> ''..'') r"

fun ensure_dirs :: "path \<Rightarrow> path \<Rightarrow> fs \<Rightarrow> exn + fs" where
  "ensure_dirs base [] fs = Inr fs"
| "ensure_dirs base (c # cs) fs =
     (case lookup fs (base @ [c]) of
        None \<Rightarrow> ensure_dirs (base @ [c]) cs (put (base @ [c]) Dir fs)
      | Some Dir \<Rightarrow> ensure_dirs (base @ [c]) cs fs
      | Some (File x) \<Rightarrow> Inl NotADirectoryError)"

definition extract_member :: "path \<Rightarrow> path \<times> entry \<Rightarrow> fs \<Rightarrow> exn + fs" where
  "extract_member dest m fs =
     (let r = sanitize (fst m) in
      case ensure_dirs dest (butlast r) fs of
        Inl e \<Rightarrow> Inl e
      | Inr fs1 \<Rightarrow>
          (case snd m of
             EDir \<Rightarrow> if is_dir fs1 (dest @ r) then Inr fs1 else mkdir (dest @ r) fs1
           | EFile c \<Rightarrow> write_file (dest @ r) c fs1))"

fun extractall :: "path \<Rightarrow> (path \<times> entry) list \<Rightarrow> fs \<Rightarrow> exn + fs" where
  "extractall dest [] fs = Inr fs"
| "extractall dest (m # ms) fs =
     (case extract_member dest m fs of
        Inl e \<Rightarrow> Inl e
      | Inr fs1 \<Rightarrow> extractall dest ms fs1)"

text \<open>
  \<^verbatim>\<open>for f in extract_dir.rglob("*"): zf.write(f, f.relative_to(extract_dir))\<close>:
  every file and directory strictly below the root becomes a member named by its
  relative path.
\<close>

definition entry_of :: "node \<Rightarrow> entry" where
  "entry_of n = (case n of Dir \<Rightarrow> EDir | File c \<Rightarrow> EFile c)"

definition rglob :: "path \<Rightarrow> fs \<Rightarrow> (path \<times> node) list" where
  "rglob d fs = filter (\<lambda>(q, n). strict_prefix d q) fs"

definition repack_entries :: "path \<Rightarrow> fs \<Rightarrow> (path \<times> entry) list" where
  "repack_entries d fs = map (\<lambda>(q, n). (drop (length d) q, entry_of n)) (rglob d fs)"

text \<open>Reading a member by name: the last member of that name counts.\<close>

definition zip_lookup :: "(path \<times> entry) list \<Rightarrow> path \<Rightarrow> entry option" where
  "zip_lookup z r = map_of (rev z) r"

section \<open>Configuration and environment\<close>

definition EGG_DIR :: path where
  "EGG_DIR = [''usr'', ''local'', ''openvpn_as'', ''lib'', ''python'']"

definition EGG_PATTERN :: string where
  "EGG_PATTERN = ''pyovpn-*.egg''"

definition BACKUP_DIR :: path where
  "BACKUP_DIR = [''tmp'']"

definition TIMESTAMP_FORMAT :: string where
  "TIMESTAMP_FORMAT = ''%Y%m%d-%H%M%S''"

text \<open>
  A \<^verbatim>\<open>datetime\<close> object; Python keeps \<open>1 \<le> year \<le> 9999\<close>, \<open>1 \<le> month \<le> 12\<close>,
  \<open>1 \<le> day \<le> 31\<close>, \<open>hour < 24\<close>, \<open>minute < 60\<close> and \<open>second < 60\<close>.
\<close>

record datetime =
  year :: nat
  month :: nat
  day :: nat
  hour :: nat
  minute :: nat
  second :: nat

definition digit_char :: "nat \<Rightarrow> char" where
  "digit_char d = ''0123456789'' ! (d mod 10)"

fun zpad :: "nat \<Rightarrow> nat \<Rightarrow> string" where
  "zpad 0 n = []"
| "zpad (Suc w) n = zpad w (n div 10) @ [digit_char n]"

definition directive :: "datetime \<Rightarrow> char \<Rightarrow> string" where
  "directive dt d =
     (if d = CHR ''Y'' then zpad 4 (year dt)
      else if d = CHR ''m'' then zpad 2 (month dt)
      else if d = CHR ''d'' then zpad 2 (day dt)
      else if d = CHR ''H'' then zpad 2 (hour dt)
      else if d = CHR ''M'' then zpad 2 (minute dt)
      else if d = CHR ''S'' then zpad 2 (second dt)
      else [CHR ''%'', d])"

fun strftime :: "datetime \<Rightarrow> string \<Rightarrow> string" where
  "strftime dt [] = []"
| "strftime dt [c] = [c]"
| "strftime dt (c # d # rest) =
     (if c = CHR ''%'' then directive dt d @ strftime dt rest
      else c # strftime dt (d # rest))"

text \<open>The places of the \<^verbatim>\<open>try\<close> block where a library call can raise.\<close>

datatype site =
    AtCopyEgg | AtMkdir | AtOpenZip | AtExtract | AtRename | AtWriteText | AtCompile
  | AtUnlink | AtRepack | AtBackup | AtDeploy

text \<open>
  What the run depends on besides the file system: the debug flag, the directory and the
  random names \<^verbatim>\<open>tempfile.mkdtemp\<close> draws, failures of the operating system that the
  file-system model does not determine (\<open>fault\<close>, such as a permission error), the
  outcome of the external compiler, the clock, and the paths \<^verbatim>\<open>rmtree\<close> cannot remove.
  A fault is raised before the call has had any effect, with one exception: a deploy copy
  that fails may already have written to the live path, and \<open>deploy_leaves\<close> is what it
  leaves there (\<open>None\<close> when it had not started writing).
\<close>

record env =
  DEBUG_MODE :: bool
  gettempdir :: path
  temp_names :: "string list"
  fault :: "site \<Rightarrow> exn option"
  cc_returncode :: int
  cc_emits :: bool
  utc_now :: datetime
  rm_stuck :: "path list"
  deploy_leaves :: "content option"

section \<open>Logging\<close>

datatype level = DEBUG | INFO | WARNING | ERROR

datatype msg =
    StartingPatchWorkflow
  | NoEggFileMatching
  | MultipleEggFiles "path list"
  | AbortingMissingEgg
  | SourceEggNotFound path
  | EnsureRunAsRoot
  | CreatedTempDir path
  | CopiedEgg path
  | ExtractedEgg path
  | ExpectedNotFound path
  | Renamed
  | WroteNew path
  | CompilationFailed
  | CompilerStdout
  | CompilerStderr
  | Compiled
  | CompiledNotFound path
  | LeftSource path
  | RemovedSource path
  | Repacked path
  | BackedUp path
  | NoLiveEggToBackUp
  | Deployed path
  | PermissionErrorMsg
  | RunAsRootMsg
  | InvalidZipFile
  | SubprocessErrorMsg
  | UnexpectedError exn
  | CleanedUp path

record world =
  files :: fs
  log :: "(level \<times> msg) list"

definition say :: "level \<Rightarrow> msg \<Rightarrow> world \<Rightarrow> world" where
  "say l m w = w\<lparr>log := log w @ [(l, m)]\<rparr>"

section \<open>Helpers\<close>

text \<open>\<^verbatim>\<open>fnmatch\<close> for patterns made of literal characters, \<^verbatim>\<open>*\<close> and \<^verbatim>\<open>?\<close>.\<close>

fun fnmatch :: "string \<Rightarrow> string \<Rightarrow> bool" where
  "fnmatch [] s = (s = [])"
| "fnmatch (p # ps) [] = (p = CHR ''*'' \<and> fnmatch ps [])"
| "fnmatch (p # ps) (c # cs) =
     (if p = CHR ''*'' then fnmatch ps (c # cs) \<or> fnmatch (p # ps) cs
      else (p = CHR ''?'' \<or> p = c) \<and> fnmatch ps cs)"

text \<open>\<^verbatim>\<open>list(d.glob(pattern))\<close>: the entries of \<open>d\<close> whose name matches, in scan order.\<close>

definition glob :: "path \<Rightarrow> string \<Rightarrow> fs \<Rightarrow> path list" where
  "glob d pat fs =
     map fst (filter (\<lambda>(q, n). q \<noteq> [] \<and> butlast q = d \<and> fnmatch pat (last q)) fs)"

text \<open>
  \<^verbatim>\<open>tempfile.mkdtemp(prefix=...)\<close>: the first drawn name that does not exist yet is
  created; it raises when every name drawn exists.
\<close>

definition mkdtemp :: "env \<Rightarrow> string \<Rightarrow> fs \<Rightarrow> exn + path \<times> fs" where
  "mkdtemp env pre fs =
     (case filter (\<lambda>n. \<not> exists fs (gettempdir env @ [pre @ n])) (temp_names env) of
        [] \<Rightarrow> Inl FileExistsError
      | n # ns \<Rightarrow>
          (case mkdir (gettempdir env @ [pre @ n]) fs of
             Inl e \<Rightarrow> Inl e
           | Inr fs' \<Rightarrow> Inr (gettempdir env @ [pre @ n], fs')))"

definition setup_temp_dir :: "env \<Rightarrow> string \<Rightarrow> world \<Rightarrow> exn + path \<times> world" where
  "setup_temp_dir env pre w =
     (case mkdtemp env pre (files w) of
        Inl e \<Rightarrow> Inl e
      | Inr (t, fs') \<Rightarrow> Inr (t, say DEBUG (CreatedTempDir t) (w\<lparr>files := fs'\<rparr>)))"

definition find_source_egg :: "world \<Rightarrow> path option \<times> world" where
  "find_source_egg w =
     (let egg_files = glob EGG_DIR EGG_PATTERN (files w) in
      case egg_files of
        [] \<Rightarrow> (None, say ERROR NoEggFileMatching w)
      | e # es \<Rightarrow>
          (Some e, if 1 < length egg_files then say WARNING (MultipleEggFiles egg_files) w else w))"

section \<open>The patch pipeline\<close>

text \<open>
  The body of the \<^verbatim>\<open>try\<close> block is a sequence of steps. A step continues, returns from
  \<^verbatim>\<open>patch()\<close>, or raises; the steps after a return or a raise do not run.
\<close>

datatype signal = Continue | Return | Raise exn

type_synonym step = "world \<Rightarrow> signal \<times> world"

fun run_steps :: "step list \<Rightarrow> step" where
  "run_steps [] w = (Continue, w)"
| "run_steps (s # ss) w =
     (let (sg, w') = s w in if sg = Continue then run_steps ss w' else (sg, w'))"

definition action :: "env \<Rightarrow> site \<Rightarrow> (fs \<Rightarrow> exn + fs) \<Rightarrow> step" where
  "action env s f w =
     (case fault env s of
        Some e \<Rightarrow> (Raise e, w)
      | None \<Rightarrow>
          (case f (files w) of
             Inl e \<Rightarrow> (Raise e, w)
           | Inr fs' \<Rightarrow> (Continue, w\<lparr>files := fs'\<rparr>)))"

definition tell :: "level \<Rightarrow> msg \<Rightarrow> step" where
  "tell l m w = (Continue, say l m w)"

definition dest_egg :: "path \<Rightarrow> path \<Rightarrow> path" where
  "dest_egg temp_dir egg = temp_dir @ [last egg]"

definition extract_dir :: "path \<Rightarrow> path" where
  "extract_dir temp_dir = temp_dir @ [''extracted'']"

definition lic_dir :: "path \<Rightarrow> path" where
  "lic_dir temp_dir = extract_dir temp_dir @ [''pyovpn'', ''lic'']"

definition old_pyc :: "path \<Rightarrow> path" where
  "old_pyc temp_dir = lic_dir temp_dir @ [''uprop.pyc'']"

definition new_pyc :: "path \<Rightarrow> path" where
  "new_pyc temp_dir = lic_dir temp_dir @ [''uprop2.pyc'']"

definition new_py :: "path \<Rightarrow> path" where
  "new_py temp_dir = lic_dir temp_dir @ [''uprop.py'']"

definition pyc_file :: "path \<Rightarrow> path" where
  "pyc_file temp_dir = lic_dir temp_dir @ [''uprop.pyc'']"

definition open_zip :: "path \<Rightarrow> fs \<Rightarrow> exn + (path \<times> entry) list" where
  "open_zip p fs =
     (case lookup fs p of
        None \<Rightarrow> Inl FileNotFoundError
      | Some Dir \<Rightarrow> Inl IsADirectoryError
      | Some (File c) \<Rightarrow> (case c of Zip m z \<Rightarrow> Inr z | _ \<Rightarrow> Inl BadZipFile))"

definition unzip :: "env \<Rightarrow> path \<Rightarrow> path \<Rightarrow> step" where
  "unzip env archive dest w =
     (case fault env AtOpenZip of
        Some e \<Rightarrow> (Raise e, w)
      | None \<Rightarrow>
          (case open_zip archive (files w) of
             Inl e \<Rightarrow> (Raise e, w)
           | Inr z \<Rightarrow> action env AtExtract (extractall dest z) w))"

definition require_exists :: "path \<Rightarrow> msg \<Rightarrow> step" where
  "require_exists p m w =
     (if exists (files w) p then (Continue, w) else (Return, say ERROR m w))"

text \<open>
  \<^verbatim>\<open>python3 -m compileall -b uprop.py\<close>, an external process: when it emits, the
  bytecode of the source lands beside it.
\<close>

definition py_compile :: "content \<Rightarrow> content option" where
  "py_compile c = (case c of FacadeSrc \<Rightarrow> Some (Pyc CFacade) | _ \<Rightarrow> None)"

definition compileall :: "env \<Rightarrow> path \<Rightarrow> path \<Rightarrow> fs \<Rightarrow> fs" where
  "compileall env src out fs =
     (case lookup fs src of
        Some (File c) \<Rightarrow>
          (case py_compile c of
             Some b \<Rightarrow> if cc_emits env then put out (File b) fs else fs
           | None \<Rightarrow> fs)
      | _ \<Rightarrow> fs)"

definition run_compiler :: "env \<Rightarrow> path \<Rightarrow> path \<Rightarrow> step" where
  "run_compiler env src out w =
     (case fault env AtCompile of
        Some e \<Rightarrow> (Raise e, w)
      | None \<Rightarrow>
          (let w1 = w\<lparr>files := compileall env src out (files w)\<rparr> in
           if cc_returncode env \<noteq> 0
           then (Return,
                 say ERROR CompilerStderr (say ERROR CompilerStdout (say ERROR CompilationFailed w1)))
           else (Continue, say DEBUG Compiled w1)))"

definition remove_source :: "env \<Rightarrow> path \<Rightarrow> step" where
  "remove_source env p =
     (if DEBUG_MODE env then tell DEBUG (LeftSource p)
      else run_steps [action env AtUnlink (unlink_missing_ok p), tell DEBUG (RemovedSource p)])"

text \<open>
  \<^verbatim>\<open>ZipFile(dest_egg, "w", ZIP_DEFLATED)\<close> truncates the archive first; the members are
  collected while it is open.
\<close>

definition repack :: "path \<Rightarrow> path \<Rightarrow> fs \<Rightarrow> exn + fs" where
  "repack src_dir archive fs =
     (case write_file archive (Zip ZIP_DEFLATED []) fs of
        Inl e \<Rightarrow> Inl e
      | Inr fs1 \<Rightarrow> Inr (put archive (File (Zip ZIP_DEFLATED (repack_entries src_dir fs1))) fs1))"

definition backup_path :: "env \<Rightarrow> path \<Rightarrow> path" where
  "backup_path env egg =
     BACKUP_DIR @ [last egg @ ''.bak-'' @ strftime (utc_now env) TIMESTAMP_FORMAT]"

definition backup :: "env \<Rightarrow> path \<Rightarrow> step" where
  "backup env egg w =
     (case (case fault env AtBackup of
              Some e \<Rightarrow> Inl e
            | None \<Rightarrow> copy2 egg (backup_path env egg) (files w)) of
        Inl e \<Rightarrow>
          if e = FileNotFoundError then (Continue, say WARNING NoLiveEggToBackUp w)
          else (Raise e, w)
      | Inr fs' \<Rightarrow> (Continue, say DEBUG (BackedUp (backup_path env egg)) (w\<lparr>files := fs'\<rparr>)))"

text \<open>\<^verbatim>\<open>shutil.copy2(dest_egg, SOURCE_EGG)\<close>, a copy and not a rename into place.\<close>

definition deploy :: "env \<Rightarrow> path \<Rightarrow> path \<Rightarrow> step" where
  "deploy env src egg w =
     (case fault env AtDeploy of
        Some e \<Rightarrow>
          (Raise e,
           case deploy_leaves env of
             None \<Rightarrow> w
           | Some c \<Rightarrow> w\<lparr>files := put egg (File c) (files w)\<rparr>)
      | None \<Rightarrow>
          (case copy2 src egg (files w) of
             Inl e \<Rightarrow> (Raise e, w)
           | Inr fs' \<Rightarrow> (Continue, w\<lparr>files := fs'\<rparr>)))"

definition patch_steps :: "env \<Rightarrow> path \<Rightarrow> path \<Rightarrow> step list" where
  "patch_steps env egg temp_dir =
     [action env AtCopyEgg (copy2 egg (dest_egg temp_dir egg)),
      tell DEBUG (CopiedEgg (dest_egg temp_dir egg)),
      action env AtMkdir (mkdir (extract_dir temp_dir)),
      unzip env (dest_egg temp_dir egg) (extract_dir temp_dir),
      tell DEBUG (ExtractedEgg (extract_dir temp_dir)),
      require_exists (old_pyc temp_dir) (ExpectedNotFound (old_pyc temp_dir)),
      action env AtRename (rename (old_pyc temp_dir) (new_pyc temp_dir)),
      tell DEBUG Renamed,
      action env AtWriteText (write_file (new_py temp_dir) FacadeSrc),
      tell DEBUG (WroteNew (new_py temp_dir)),
      run_compiler env (new_py temp_dir) (pyc_file temp_dir),
      require_exists (pyc_file temp_dir) (CompiledNotFound (pyc_file temp_dir)),
      remove_source env (new_py temp_dir),
      action env AtRepack (repack (extract_dir temp_dir) (dest_egg temp_dir egg)),
      tell DEBUG (Repacked (dest_egg temp_dir egg)),
      backup env egg,
      deploy env (dest_egg temp_dir egg) egg,
      tell DEBUG (Deployed egg)]"

text \<open>The \<^verbatim>\<open>except\<close> clauses, in their order; an interrupt passes through.\<close>

definition handlers :: "signal \<Rightarrow> world \<Rightarrow> exn option \<times> world" where
  "handlers sg w =
     (case sg of
        Raise e \<Rightarrow>
          if e = PermissionError then (None, say ERROR RunAsRootMsg (say ERROR PermissionErrorMsg w))
          else if e = BadZipFile then (None, say ERROR InvalidZipFile w)
          else if e = SubprocessError then (None, say ERROR SubprocessErrorMsg w)
          else if is_Exception e then (None, say ERROR (UnexpectedError e) w)
          else (Some e, w)
      | _ \<Rightarrow> (None, w))"

text \<open>The \<^verbatim>\<open>finally\<close> clause.\<close>

definition finally_clause :: "env \<Rightarrow> path \<Rightarrow> world \<Rightarrow> world" where
  "finally_clause env temp_dir w =
     (if \<not> DEBUG_MODE env \<and> exists (files w) temp_dir
      then say DEBUG (CleanedUp temp_dir)
             (w\<lparr>files := rmtree_ignore_errors (rm_stuck env) temp_dir (files w)\<rparr>)
      else w)"

definition acquire_temp_dir :: "env \<Rightarrow> world \<Rightarrow> exn + path \<times> world" where
  "acquire_temp_dir env w =
     (if DEBUG_MODE env then setup_temp_dir env ''pyovpn_patch_'' w
      else case mkdtemp env ''pyovpn_patch_'' (files w) of
             Inl e \<Rightarrow> Inl e
           | Inr (t, fs') \<Rightarrow> Inr (t, w\<lparr>files := fs'\<rparr>))"

text \<open>
  \<^verbatim>\<open>patch()\<close>: the result is the exception that leaves the function, if any, with the
  file system and the log afterwards.
\<close>

definition patch :: "env \<Rightarrow> fs \<Rightarrow> exn option \<times> world" where
  "patch env fs0 =
     (let w0 = say INFO StartingPatchWorkflow \<lparr>files = fs0, log = []\<rparr> in
      case find_source_egg w0 of
        (None, w1) \<Rightarrow> (None, say ERROR AbortingMissingEgg w1)
      | (Some egg, w1) \<Rightarrow>
          if \<not> is_file (files w1) egg
          then (None, say ERROR EnsureRunAsRoot (say ERROR (SourceEggNotFound egg) w1))
          else (case acquire_temp_dir env w1 of
                  Inl e \<Rightarrow> (Some e, w1)
                | Inr (temp_dir, w2) \<Rightarrow>
                    (let (sg, w3) = run_steps (patch_steps env egg temp_dir) w2;
                         (uncaught, w4) = handlers sg w3
                     in (uncaught, finally_clause env temp_dir w4))))"

section \<open>Example inputs\<close>

definition example_env :: env where
  "example_env =
     \<lparr>DEBUG_MODE = False, gettempdir = [''tmp''], temp_names = [''a1b2c3d4''],
      fault = (\<lambda>s. None), cc_returncode = 0, cc_emits = True,
      utc_now = \<lparr>year = 2024, month = 3, day = 5, hour = 10, minute = 7, second = 22\<rparr>,
      rm_stuck = [], deploy_leaves = None\<rparr>"

definition fs_nomatch :: fs where
  "fs_nomatch =
     [([''tmp''], Dir), ([''usr''], Dir), ([''usr'', ''local''], Dir),
      ([''usr'', ''local'', ''openvpn_as''], Dir),
      ([''usr'', ''local'', ''openvpn_as'', ''lib''], Dir),
      ([''usr'', ''local'', ''openvpn_as'', ''lib'', ''python''], Dir),
      ([''usr'', ''local'', ''openvpn_as'', ''lib'', ''python'', ''pyovpn_1.2.3.egg''],
       File (Raw 0)),
      ([''usr'', ''local'', ''openvpn_as'', ''lib'', ''python'', ''pyovpn-1.2.3.zip''],
       File (Raw 1))]"

definition orig_module :: pycode where
  "orig_module =
     COrig [(''UsageProperties'', VClass 0), (''helper'', VInt 3)]
           [(0, [(''figure'', VFunc (Native 0))])]"

definition example_egg :: content where
  "example_egg =
     Zip ZIP_DEFLATED
       [([''pyovpn'', ''__init__.pyc''], EFile (Raw 1)),
        ([''pyovpn'', ''lic'', ''__init__.pyc''], EFile (Raw 2)),
        ([''pyovpn'', ''lic'', ''uprop.pyc''], EFile (Pyc orig_module)),
        ([''EGG-INFO'', ''PKG-INFO''], EFile (Raw 3))]"

definition live_egg :: path where
  "live_egg = [''usr'', ''local'', ''openvpn_as'', ''lib'', ''python'', ''pyovpn-1.2.3.egg'']"

definition example_fs :: fs where
  "example_fs =
     [([''tmp''], Dir), ([''usr''], Dir), ([''usr'', ''local''], Dir),
      ([''usr'', ''local'', ''openvpn_as''], Dir),
      ([''usr'', ''local'', ''openvpn_as'', ''lib''], Dir),
      ([''usr'', ''local'', ''openvpn_as'', ''lib'', ''python''], Dir),
      (live_egg, File example_egg)]"

definition failing_cc_env :: env where
  "failing_cc_env = example_env\<lparr>cc_returncode := 1\<rparr>"

definition debug_env :: env where
  "debug_env = example_env\<lparr>DEBUG_MODE := True\<rparr>"

definition interrupted_env :: env where
  "interrupted_env = example_env\<lparr>fault := (\<lambda>s. if s = AtRepack then Some KeyboardInterrupt else None)\<rparr>"

definition example_workspace :: path where
  "example_workspace = [''tmp'', ''pyovpn_patch_a1b2c3d4'']"

definition modless_fs :: fs where
  "modless_fs =
     [([''tmp''], Dir), ([''usr''], Dir), ([''usr'', ''local''], Dir),
      ([''usr'', ''local'', ''openvpn_as''], Dir),
      ([''usr'', ''local'', ''openvpn_as'', ''lib''], Dir),
      ([''usr'', ''local'', ''openvpn_as'', ''lib'', ''python''], Dir),
      (live_egg,
       File (Zip ZIP_DEFLATED
               [([''pyovpn'', ''__init__.pyc''], EFile (Raw 1)),
                ([''pyovpn'', ''lic'', ''__init__.pyc''], EFile (Raw 2)),
                ([''pyovpn'', ''lic'', ''lic.pyc''], EFile (Raw 4))]))]"

definition same_except :: "(path \<Rightarrow> bool) \<Rightarrow> fs \<Rightarrow> fs \<Rightarrow> bool" where
  "same_except P fs fs' = (\<forall>p. \<not> P p \<longrightarrow> lookup fs' p = lookup fs p)"

definition backup_done :: "(level \<times> msg) list \<Rightarrow> bool" where
  "backup_done L =
     list_ex (\<lambda>r. case snd r of BackedUp p \<Rightarrow> True | NoLiveEggToBackUp \<Rightarrow> True | _ \<Rightarrow> False) L"

definition allowed :: "env \<Rightarrow> path \<Rightarrow> path \<Rightarrow> (level \<times> msg) list \<Rightarrow> path \<Rightarrow> bool" where
  "allowed env t egg L p =
     (strict_prefix t p
      \<or> ((DEBUG, BackedUp (backup_path env egg)) \<in> set L
          \<and> (p = backup_path env egg \<or> p = backup_path env egg @ [last egg]))
      \<or> (((DEBUG, Deployed egg) \<in> set L \<or> (fault env AtDeploy \<noteq> None \<and> backup_done L))
          \<and> (p = egg \<or> p = egg @ [last egg])))"

definition evolves :: "env \<Rightarrow> path \<Rightarrow> path \<Rightarrow> world \<Rightarrow> world \<Rightarrow> bool" where
  "evolves env t egg w w' =
     (set (log w) \<subseteq> set (log w') \<and> same_except (allowed env t egg (log w')) (files w) (files w'))"

type_synonym logs = "(level \<times> msg) list"

definition logs_as :: "step \<Rightarrow> logs set \<Rightarrow> logs set \<Rightarrow> bool" where
  "logs_as s C E =
     (\<forall>w. \<exists>ms. log (snd (s w)) = log w @ ms \<and>
        (if fst (s w) = Continue then ms \<in> C else ms \<in> E))"

fun traces :: "(logs set \<times> logs set) list \<Rightarrow> bool \<Rightarrow> logs \<Rightarrow> bool" where
  "traces [] cont ms = (cont \<and> ms = [])"
| "traces (ce # r) cont ms =
     ((\<not> cont \<and> ms \<in> snd ce) \<or> (\<exists>c \<in> fst ce. \<exists>ms'. ms = c @ ms' \<and> traces r cont ms'))"

definition patch_traces :: "env \<Rightarrow> path \<Rightarrow> path \<Rightarrow> (logs set \<times> logs set) list" where
  "patch_traces env egg t =
     [({[]}, {[]}),
      ({[(DEBUG, CopiedEgg (dest_egg t egg))]}, {}),
      ({[]}, {[]}),
      ({[]}, {[]}),
      ({[(DEBUG, ExtractedEgg (extract_dir t))]}, {}),
      ({[]}, {[(ERROR, ExpectedNotFound (old_pyc t))]}),
      ({[]}, {[]}),
      ({[(DEBUG, Renamed)]}, {}),
      ({[]}, {[]}),
      ({[(DEBUG, WroteNew (new_py t))]}, {}),
      ({[(DEBUG, Compiled)]},
       {[], [(ERROR, CompilationFailed), (ERROR, CompilerStdout), (ERROR, CompilerStderr)]}),
      ({[]}, {[(ERROR, CompiledNotFound (pyc_file t))]}),
      ({[(DEBUG, LeftSource (new_py t))], [(DEBUG, RemovedSource (new_py t))]}, {[]}),
      ({[]}, {[]}),
      ({[(DEBUG, Repacked (dest_egg t egg))]}, {}),
      ({[(DEBUG, BackedUp (backup_path env egg))], [(WARNING, NoLiveEggToBackUp)]}, {[]}),
      ({[]}, {[]}),
      ({[(DEBUG, Deployed egg)]}, {})]"

definition is_progress :: "msg \<Rightarrow> bool" where
  "is_progress m =
     (case m of
        CopiedEgg p \<Rightarrow> True | ExtractedEgg p \<Rightarrow> True | Renamed \<Rightarrow> True | WroteNew p \<Rightarrow> True
      | Compiled \<Rightarrow> True | LeftSource p \<Rightarrow> True | RemovedSource p \<Rightarrow> True | Repacked p \<Rightarrow> True
      | BackedUp p \<Rightarrow> True | NoLiveEggToBackUp \<Rightarrow> True | Deployed p \<Rightarrow> True
      | _ \<Rightarrow> False)"

fun quiet_after_error :: "logs \<Rightarrow> bool" where
  "quiet_after_error [] = True"
| "quiet_after_error (r # rs) =
     (if fst r = ERROR then list_all (\<lambda>r'. \<not> is_progress (snd r')) rs else quiet_after_error rs)"

text \<open>No step reads the log: what a step does to the files depends on the files only.\<close>

definition files_only :: "step \<Rightarrow> bool" where
  "files_only s =
     (\<forall>w w'. files w = files w' \<longrightarrow>
        fst (s w) = fst (s w') \<and> files (snd (s w)) = files (snd (s w')))"

text \<open>
  The example file system with a directory already at the path the backup of
  2024-03-05 10:07:22 goes to.
\<close>

definition occupied_fs :: fs where
  "occupied_fs = example_fs @ [([''tmp'', ''pyovpn-1.2.3.egg.bak-20240305-100722''], Dir)]"

definition extracted_as :: "(path \<times> entry) list \<Rightarrow> path \<Rightarrow> entry option" where
  "extracted_as z r = map_of (rev (map (\<lambda>m. (sanitize (fst m), snd m)) z)) r"

text \<open>
  The interpreter state that matters when the generated module is imported:
  \<^verbatim>\<open>sys.modules\<close>, mapping a module name to the module's globals, and the class objects,
  mapping an address to the class's attributes. Attribute lookup on a class is lookup in
  that one table (base classes are not modelled), and values other than modules and
  classes have no attributes.
\<close>

record pystate =
  modules :: "string \<Rightarrow> namespace option"
  classes :: "nat \<Rightarrow> namespace option"

definition UPROP :: string where
  "UPROP = ''pyovpn.lic.uprop''"

definition UPROP2 :: string where
  "UPROP2 = ''pyovpn.lic.uprop2''"

definition empty_state :: pystate where
  "empty_state = \<lparr>modules = (\<lambda>m. None), classes = (\<lambda>c. None)\<rparr>"

definition get_global :: "pystate \<Rightarrow> string \<Rightarrow> string \<Rightarrow> pyval option" where
  "get_global st m x = (case modules st m of None \<Rightarrow> None | Some ns \<Rightarrow> map_of ns x)"

definition set_global :: "string \<Rightarrow> string \<Rightarrow> pyval \<Rightarrow> pystate \<Rightarrow> pystate" where
  "set_global m x v st =
     (case modules st m of
        None \<Rightarrow> st
      | Some ns \<Rightarrow> st\<lparr>modules := (modules st)(m \<mapsto> AList.update x v ns)\<rparr>)"

definition getattr :: "pystate \<Rightarrow> pyval \<Rightarrow> string \<Rightarrow> exn + pyval" where
  "getattr st v x =
     (case (case v of VModule u \<Rightarrow> modules st u | VClass c \<Rightarrow> classes st c | _ \<Rightarrow> None) of
        None \<Rightarrow> Inl AttributeError
      | Some ns \<Rightarrow> (case map_of ns x of None \<Rightarrow> Inl AttributeError | Some a \<Rightarrow> Inr a))"

definition setattr :: "pyval \<Rightarrow> string \<Rightarrow> pyval \<Rightarrow> pystate \<Rightarrow> exn + pystate" where
  "setattr v x a st =
     (case v of
        VModule u \<Rightarrow>
          (case modules st u of
             None \<Rightarrow> Inl AttributeError
           | Some ns \<Rightarrow> Inr (st\<lparr>modules := (modules st)(u \<mapsto> AList.update x a ns)\<rparr>))
      | VClass c \<Rightarrow>
          (case classes st c of
             None \<Rightarrow> Inl AttributeError
           | Some ns \<Rightarrow> Inr (st\<lparr>classes := (classes st)(c \<mapsto> AList.update x a ns)\<rparr>))
      | _ \<Rightarrow> Inl AttributeError)"

text \<open>\<^verbatim>\<open>dir(v)\<close>: the attribute names, sorted.\<close>

definition dir :: "pystate \<Rightarrow> pyval \<Rightarrow> string list" where
  "dir st v =
     (case (case v of VModule u \<Rightarrow> modules st u | VClass c \<Rightarrow> classes st c | _ \<Rightarrow> None) of
        None \<Rightarrow> []
      | Some ns \<Rightarrow> sort (remdups (map fst ns)))"

text \<open>
  The three statements the generated module runs through \<^verbatim>\<open>exec\<close>. The name
  \<^verbatim>\<open>exec\<close> is looked up in the module's globals before the builtins, so once the loop
  has bound a global of that name the call no longer reaches the builtin; the model
  gives \<^verbatim>\<open>TypeError\<close> then.
\<close>

definition exec_stmt :: "string \<Rightarrow> (pystate \<Rightarrow> exn + pystate) \<Rightarrow> pystate \<Rightarrow> exn + pystate" where
  "exec_stmt m stmt st = (if get_global st m ''exec'' \<noteq> None then Inl TypeError else stmt st)"

definition save_old_figure :: "string \<Rightarrow> pystate \<Rightarrow> exn + pystate" where
  "save_old_figure m st =
     (case get_global st m ''uprop2'' of
        None \<Rightarrow> Inl NameError
      | Some u \<Rightarrow>
          (case getattr st u ''UsageProperties'' of
             Inl e \<Rightarrow> Inl e
           | Inr c \<Rightarrow>
               (case getattr st c ''figure'' of
                  Inl e \<Rightarrow> Inl e
                | Inr f \<Rightarrow> Inr (set_global m ''old_figure'' f st))))"

definition install_new_figure :: "string \<Rightarrow> pystate \<Rightarrow> exn + pystate" where
  "install_new_figure m st =
     (case get_global st m ''new_figure'' of
        None \<Rightarrow> Inl NameError
      | Some f \<Rightarrow>
          (case get_global st m ''uprop2'' of
             None \<Rightarrow> Inl NameError
           | Some u \<Rightarrow>
               (case getattr st u ''UsageProperties'' of
                  Inl e \<Rightarrow> Inl e
                | Inr c \<Rightarrow> setattr c ''figure'' f st)))"

definition reexport :: "string \<Rightarrow> string \<Rightarrow> pystate \<Rightarrow> exn + pystate" where
  "reexport m x st =
     (case get_global st m ''uprop2'' of
        None \<Rightarrow> Inl NameError
      | Some u \<Rightarrow>
          (case getattr st u x of
             Inl e \<Rightarrow> Inl e
           | Inr a \<Rightarrow> Inr (set_global m x a st)))"

text \<open>One round of \<^verbatim>\<open>for x in dir(uprop2)\<close>.\<close>

definition facade_loop_body :: "string \<Rightarrow> string \<Rightarrow> pystate \<Rightarrow> exn + pystate" where
  "facade_loop_body m x st0 =
     (let st = set_global m ''x'' (VStr x) st0 in
      if take 2 x = ''__'' then Inr st
      else case (if x = ''UsageProperties''
                 then (case exec_stmt m (save_old_figure m) st of
                         Inl e \<Rightarrow> Inl e
                       | Inr st1 \<Rightarrow> exec_stmt m (install_new_figure m) st1)
                 else Inr st) of
             Inl e \<Rightarrow> Inl e
           | Inr st2 \<Rightarrow> exec_stmt m (reexport m x) st2)"

fun facade_loop :: "string \<Rightarrow> string list \<Rightarrow> pystate \<Rightarrow> exn + pystate" where
  "facade_loop m [] st = Inr st"
| "facade_loop m (x # xs) st =
     (case facade_loop_body m x st of Inl e \<Rightarrow> Inl e | Inr st' \<Rightarrow> facade_loop m xs st')"

text \<open>
  The body of the generated module, run with the globals of module \<open>m\<close>; the
  \<^verbatim>\<open>from pyovpn.lic import uprop2\<close> finds the module in \<^verbatim>\<open>sys.modules\<close>.
\<close>

definition facade_exec :: "string \<Rightarrow> pystate \<Rightarrow> exn + pystate" where
  "facade_exec m st0 =
     (case modules st0 UPROP2 of
        None \<Rightarrow> Inl ImportError
      | Some ns \<Rightarrow>
          (let st1 = set_global m ''uprop2'' (VModule UPROP2) st0;
               st2 = set_global m ''old_figure'' VNone st1;
               st3 = set_global m ''new_figure'' (VFunc (NewFigure m)) st2
           in case get_global st3 m ''uprop2'' of
                None \<Rightarrow> Inl NameError
              | Some u \<Rightarrow> facade_loop m (dir st3 u) st3))"

definition init_globals :: "string \<Rightarrow> namespace" where
  "init_globals m =
     [(''__name__'', VStr m), (''__doc__'', VNone), (''__package__'', VStr ''pyovpn.lic''),
      (''__loader__'', VNone), (''__spec__'', VNone), (''__file__'', VNone),
      (''__cached__'', VNone), (''__builtins__'', VModule ''builtins'')]"

definition new_module :: "string \<Rightarrow> pystate \<Rightarrow> pystate" where
  "new_module m st = st\<lparr>modules := (modules st)(m \<mapsto> init_globals m)\<rparr>"

definition load_orig :: "string \<Rightarrow> namespace \<Rightarrow> (nat \<times> namespace) list \<Rightarrow> pystate \<Rightarrow> pystate" where
  "load_orig m g cls st =
     st\<lparr>modules := (modules st)(m \<mapsto> init_globals m @ g),
        classes := (\<lambda>c. case map_of cls c of Some a \<Rightarrow> Some a | None \<Rightarrow> classes st c)\<rparr>"

text \<open>The bytecode the archive holds for a module of the package \<^verbatim>\<open>pyovpn.lic\<close>.\<close>

definition module_code :: "(path \<times> entry) list \<Rightarrow> string \<Rightarrow> pycode option" where
  "module_code z name =
     (case zip_lookup z [''pyovpn'', ''lic'', name @ ''.pyc''] of
        Some (EFile (Pyc c)) \<Rightarrow> Some c
      | _ \<Rightarrow> None)"

definition import_uprop2 :: "(path \<times> entry) list \<Rightarrow> pystate \<Rightarrow> exn + pystate" where
  "import_uprop2 z st =
     (if modules st UPROP2 \<noteq> None then Inr st
      else case module_code z ''uprop2'' of
             None \<Rightarrow> Inl ImportError
           | Some (COrig g cls) \<Rightarrow> Inr (load_orig UPROP2 g cls st)
           | Some CFacade \<Rightarrow> facade_exec UPROP2 (new_module UPROP2 st))"

definition import_uprop :: "(path \<times> entry) list \<Rightarrow> pystate \<Rightarrow> exn + pystate" where
  "import_uprop z st =
     (if modules st UPROP \<noteq> None then Inr st
      else case module_code z ''uprop'' of
             None \<Rightarrow> Inl ImportError
           | Some (COrig g cls) \<Rightarrow> Inr (load_orig UPROP g cls st)
           | Some CFacade \<Rightarrow>
               (case import_uprop2 z (new_module UPROP st) of
                  Inl e \<Rightarrow> Inl e
                | Inr st1 \<Rightarrow> facade_exec UPROP st1))"




definition archive_at :: "fs \<Rightarrow> path \<Rightarrow> (path \<times> entry) list" where
  "archive_at fs p = (case lookup fs p of Some (File (Zip m z)) \<Rightarrow> z | _ \<Rightarrow> [])"

definition once_patched :: fs where
  "once_patched = files (snd (patch example_env example_fs))"

definition twice_patched :: fs where
  "twice_patched = files (snd (patch example_env once_patched))"

text \<open>
  The state while the loop of the generated module runs over the names of an original
  module: before the class is reached (\<open>ready\<close>), and after (\<open>class_patched\<close>, and
  \<open>after_class\<close> when moreover the globals the generated module relies on are intact).
\<close>

definition loop_state :: "namespace \<Rightarrow> pystate \<Rightarrow> bool" where
  "loop_state ns2 st =
     (modules st UPROP2 = Some ns2 \<and> modules st UPROP \<noteq> None
      \<and> get_global st UPROP ''uprop2'' = Some (VModule UPROP2)
      \<and> get_global st UPROP ''exec'' = None)"

definition ready :: "namespace \<Rightarrow> (nat \<Rightarrow> namespace option) \<Rightarrow> pystate \<Rightarrow> bool" where
  "ready ns2 cl st =
     (loop_state ns2 st
      \<and> get_global st UPROP ''new_figure'' = Some (VFunc (NewFigure UPROP))
      \<and> classes st = cl)"

definition class_patched :: "namespace \<Rightarrow> nat \<Rightarrow> namespace \<Rightarrow> pystate \<Rightarrow> bool" where
  "class_patched ns2 c attrs st =
     (modules st UPROP2 = Some ns2
      \<and> get_global st UPROP ''UsageProperties'' = Some (VClass c)
      \<and> classes st c = Some (AList.update ''figure'' (VFunc (NewFigure UPROP)) attrs))"

definition after_class :: "namespace \<Rightarrow> nat \<Rightarrow> namespace \<Rightarrow> pyval \<Rightarrow> pystate \<Rightarrow> bool" where
  "after_class ns2 c attrs f st =
     (loop_state ns2 st
      \<and> get_global st UPROP ''old_figure'' = Some f
      \<and> class_patched ns2 c attrs st)"




section \<open>Properties\<close>

subsection \<open>No matching archive\<close>

lemma glob_empty:
  assumes "\<forall>q \<in> fst ` set fs. \<not> (q \<noteq> [] \<and> butlast q = EGG_DIR \<and> fnmatch EGG_PATTERN (last q))"
  shows "glob EGG_DIR EGG_PATTERN fs = []"
  using assms by (auto simp: glob_def filter_empty_conv)

text \<open>
  Claim C7. When no entry of the source directory has a name matching the pattern,
  \<^verbatim>\<open>patch()\<close> logs the two error lines about the missing egg and returns; the file system
  afterwards is the one before, so nothing was extracted, backed up or deployed (and no
  workspace was created).
\<close>

theorem no_matching_archive:
  assumes "\<forall>q \<in> fst ` set fs. \<not> (q \<noteq> [] \<and> butlast q = EGG_DIR \<and> fnmatch EGG_PATTERN (last q))"
  shows "patch env fs =
           (None, \<lparr>files = fs,
                   log = [(INFO, StartingPatchWorkflow), (ERROR, NoEggFileMatching),
                          (ERROR, AbortingMissingEgg)]\<rparr>)"
  using glob_empty [OF assms] by (simp add: patch_def find_source_egg_def say_def)

theorem no_matching_archive_witness:
  "patch example_env fs_nomatch =
           (None, \<lparr>files = fs_nomatch,
                   log = [(INFO, StartingPatchWorkflow), (ERROR, NoEggFileMatching),
                          (ERROR, AbortingMissingEgg)]\<rparr>)"
proof -
  have h: "\<forall>q \<in> fst ` set fs_nomatch.
             \<not> (q \<noteq> [] \<and> butlast q = EGG_DIR \<and> fnmatch EGG_PATTERN (last q))"
    by (simp add: fs_nomatch_def EGG_DIR_def EGG_PATTERN_def)
  show ?thesis using no_matching_archive [OF h, of example_env] by simp
qed

lemma lookup_Nil [simp]: "lookup fs [] = Some Dir"
  by (simp add: lookup_def)

lemma lookup_put: "lookup (put p n fs) q = (if q = [] then Some Dir else if q = p then Some n else lookup fs q)"
  by (simp add: lookup_def put_def update_conv')

lemma lookup_remove: "lookup (remove p fs) q = (if q = [] then Some Dir else if q = p then None else lookup fs q)"
  by (simp add: lookup_def remove_def delete_conv')

lemma map_of_filter_key: "map_of (filter (\<lambda>(q, n). P q) fs) k = (if P k then map_of fs k else None)"
  by (induction fs) auto

lemma lookup_filter: "lookup (filter (\<lambda>(q, n). P q) fs) k = (if k = [] then Some Dir else if P k then lookup fs k else None)"
  by (simp add: lookup_def map_of_filter_key)

lemma lookup_rmtree:
  "lookup (rmtree_ignore_errors stuck d fs) q =
     (if q = [] then Some Dir else if \<not> prefix d q \<or> list_ex (\<lambda>s. prefix q s) stuck then lookup fs q else None)"
  unfolding rmtree_ignore_errors_def by (rule lookup_filter)

lemma same_except_refl: "same_except P fs fs"
  by (simp add: same_except_def)

lemma same_except_trans: "same_except P a b \<Longrightarrow> same_except P b c \<Longrightarrow> same_except P a c"
  by (simp add: same_except_def)

lemma same_except_mono: "same_except P a b \<Longrightarrow> (\<And>p. P p \<Longrightarrow> Q p) \<Longrightarrow> same_except Q a b"
  by (auto simp: same_except_def)

lemma same_except_put: "P p \<Longrightarrow> same_except P fs (put p n fs)"
  by (auto simp: same_except_def lookup_put)

lemma same_except_remove: "P p \<Longrightarrow> same_except P fs (remove p fs)"
  by (auto simp: same_except_def lookup_remove)

lemma write_file_frame: "write_file p c fs = Inr fs' \<Longrightarrow> P p \<Longrightarrow> same_except P fs fs'"
  by (auto simp: write_file_def same_except_put split: if_splits)

lemma mkdir_frame: "mkdir p fs = Inr fs' \<Longrightarrow> P p \<Longrightarrow> same_except P fs fs'"
  by (auto simp: mkdir_def same_except_put split: if_splits)

lemma copy2_frame: "copy2 src dst fs = Inr fs' \<Longrightarrow> P dst \<Longrightarrow> P (dst @ [last src]) \<Longrightarrow> same_except P fs fs'"
  by (auto simp: copy2_def Let_def write_file_frame split: option.splits node.splits if_splits)

lemma unlink_frame: "unlink_missing_ok p fs = Inr fs' \<Longrightarrow> P p \<Longrightarrow> same_except P fs fs'"
  by (auto simp: unlink_missing_ok_def same_except_remove split: if_splits)

lemma map_of_move_tree_other:
  assumes "\<not> prefix src k" "\<not> prefix dst k"
  shows "map_of (map (\<lambda>(q, n). if prefix src q then (dst @ drop (length src) q, n) else (q, n)) fs) k = map_of fs k"
  using assms by (induction fs) (auto)

lemma lookup_move_tree_other:
  assumes "\<not> prefix src k" "\<not> prefix dst k"
  shows "lookup (move_tree src dst fs) k = lookup fs k"
proof -
  have "k \<noteq> dst" using assms by auto
  then show ?thesis using assms
    by (simp add: lookup_def move_tree_def map_of_move_tree_other remove_def delete_conv')
qed

lemma rename_frame:
  assumes "rename src dst fs = Inr fs'" "\<And>p. prefix src p \<Longrightarrow> P p" "\<And>p. prefix dst p \<Longrightarrow> P p"
  shows "same_except P fs fs'"
proof -
  have a: "P src" "P dst" using assms by auto
  show ?thesis
  proof (cases "lookup fs src")
    case None then show ?thesis using assms by (simp add: rename_def)
  next
    case (Some n)
    show ?thesis
    proof (cases n)
      case Dir
      have "same_except P fs (move_tree src dst fs)"
        unfolding same_except_def
      proof (intro allI impI)
        fix p assume "\<not> P p"
        then have "\<not> prefix src p" "\<not> prefix dst p" using assms(2,3) by auto
        then show "lookup (move_tree src dst fs) p = lookup fs p"
          by (rule lookup_move_tree_other)
      qed
      then show ?thesis using assms(1) Some Dir
        by (auto simp: rename_def same_except_refl split: if_splits)
    next
      case (File c)
      then show ?thesis using assms(1) Some a
        by (auto simp: rename_def same_except_refl same_except_def lookup_put lookup_remove split: if_splits)
    qed
  qed
qed

lemma rmtree_frame: "same_except (prefix d) fs (rmtree_ignore_errors stuck d fs)"
  by (auto simp: same_except_def lookup_rmtree)

lemma ensure_dirs_frame:
  "ensure_dirs base cs fs = Inr fs' \<Longrightarrow> (\<And>p. strict_prefix base p \<Longrightarrow> P p) \<Longrightarrow> same_except P fs fs'"
proof (induction cs arbitrary: base fs)
  case Nil
  then show ?case by (simp add: same_except_refl)
next
  case (Cons c cs)
  have sub: "\<And>p. strict_prefix (base @ [c]) p \<Longrightarrow> P p"
    using Cons.prems(2) by (auto simp: strict_prefix_def prefix_def)
  have here: "P (base @ [c])" using Cons.prems(2) by (simp add: strict_prefix_def)
  show ?case
  proof (cases "lookup fs (base @ [c])")
    case None
    then have "ensure_dirs (base @ [c]) cs (put (base @ [c]) Dir fs) = Inr fs'" using Cons.prems(1) by simp
    from Cons.IH [OF this sub] have "same_except P (put (base @ [c]) Dir fs) fs'" by simp
    moreover have "same_except P fs (put (base @ [c]) Dir fs)"
      using here by (rule same_except_put)
    ultimately show ?thesis using same_except_trans by blast
  next
    case (Some n)
    then show ?thesis using Cons.prems(1) Cons.IH [OF _ sub] by (cases n) auto
  qed
qed

lemma extract_member_frame:
  assumes "extract_member dest m fs = Inr fs'" "\<And>p. prefix dest p \<Longrightarrow> P p"
  shows "same_except P fs fs'"
proof -
  let ?r = "sanitize (fst m)"
  from assms(1) obtain fs1 where e: "ensure_dirs dest (butlast ?r) fs = Inr fs1"
    and rest: "(case snd m of EDir \<Rightarrow> if is_dir fs1 (dest @ ?r) then Inr fs1 else mkdir (dest @ ?r) fs1
                 | EFile c \<Rightarrow> write_file (dest @ ?r) c fs1) = Inr fs'"
    by (auto simp: extract_member_def Let_def split: sum.splits)
  have t: "P (dest @ ?r)" using assms(2) by simp
  have 1: "same_except P fs fs1"
    by (rule ensure_dirs_frame [OF e]) (simp add: assms(2) strict_prefix_def)
  have 2: "same_except P fs1 fs'"
    using rest t by (auto simp: same_except_refl mkdir_frame write_file_frame split: entry.splits if_splits)
  show ?thesis using 1 2 by (rule same_except_trans)
qed

lemma extractall_frame:
  "extractall dest ms fs = Inr fs' \<Longrightarrow> (\<And>p. prefix dest p \<Longrightarrow> P p) \<Longrightarrow> same_except P fs fs'"
proof (induction ms arbitrary: fs)
  case Nil
  then show ?case by (simp add: same_except_refl)
next
  case (Cons m ms)
  from Cons.prems(1) obtain fs1 where a: "extract_member dest m fs = Inr fs1"
    and b: "extractall dest ms fs1 = Inr fs'"
    by (auto split: sum.splits)
  have "same_except P fs fs1" using extract_member_frame [OF a] Cons.prems(2) by blast
  moreover have "same_except P fs1 fs'" using Cons.IH [OF b] Cons.prems(2) by blast
  ultimately show ?case by (rule same_except_trans)
qed

lemma repack_frame: "repack d a fs = Inr fs' \<Longrightarrow> P a \<Longrightarrow> same_except P fs fs'"
  by (auto simp: repack_def split: sum.splits
      intro: same_except_trans [OF write_file_frame same_except_put])

lemma compileall_frame: "P out \<Longrightarrow> same_except P fs (compileall env src out fs)"
  by (auto simp: compileall_def same_except_refl same_except_put split: option.splits node.splits)

text \<open>Relations between the world before and after a step.\<close>

lemma run_steps_rel:
  assumes refl: "\<And>w. R Continue w w"
    and trans: "\<And>sg w w' w''. R Continue w w' \<Longrightarrow> R sg w' w'' \<Longrightarrow> R sg w w''"
    and each: "\<forall>s \<in> set ss. \<forall>w. R (fst (s w)) w (snd (s w))"
  shows "R (fst (run_steps ss w)) w (snd (run_steps ss w))"
  using each
proof (induction ss arbitrary: w)
  case Nil
  then show ?case by (simp add: refl)
next
  case (Cons s ss)
  obtain sg w' where sw: "s w = (sg, w')" by (cases "s w")
  have step: "R sg w w'" using Cons.prems sw by (metis fst_conv list.set_intros(1) snd_conv)
  show ?case
  proof (cases "sg = Continue")
    case True
    have "R (fst (run_steps ss w')) w' (snd (run_steps ss w'))"
      using Cons.IH Cons.prems by simp
    then show ?thesis using step True sw trans by simp
  next
    case False
    then show ?thesis using step sw by simp
  qed
qed

lemma run_steps_append:
  "run_steps (xs @ ys) w =
     (case run_steps xs w of (sg, w') \<Rightarrow> if sg = Continue then run_steps ys w' else (sg, w'))"
  by (induction xs arbitrary: w) (auto simp: Let_def split: prod.splits)

lemma run_steps_single: "run_steps [s] w = s w"
  by (cases "s w") (auto simp: Let_def)

lemma backup_done_mono: "set L \<subseteq> set L' \<Longrightarrow> backup_done L \<Longrightarrow> backup_done L'"
  by (auto simp: backup_done_def list_ex_iff)

lemma evolves_refl: "evolves env t egg w w"
  by (simp add: evolves_def same_except_refl)

lemma allowed_mono: "set L \<subseteq> set L' \<Longrightarrow> allowed env t egg L p \<Longrightarrow> allowed env t egg L' p"
  using backup_done_mono [of L L'] by (auto simp: allowed_def)

lemma evolves_trans:
  assumes "evolves env t egg w w'" "evolves env t egg w' w''"
  shows "evolves env t egg w w''"
proof -
  have "same_except (allowed env t egg (log w'')) (files w) (files w')"
    using assms by (auto simp: evolves_def intro: same_except_mono allowed_mono)
  then show ?thesis using assms by (auto simp: evolves_def intro: same_except_trans)
qed

lemma evolves_inside:
  "same_except (strict_prefix t) (files w) (files w') \<Longrightarrow> set (log w) \<subseteq> set (log w') \<Longrightarrow> evolves env t egg w w'"
  by (auto simp: evolves_def allowed_def intro: same_except_mono)

lemma action_evolves:
  assumes "\<And>fs fs'. f fs = Inr fs' \<Longrightarrow> same_except (strict_prefix t) fs fs'"
  shows "evolves env t egg w (snd (action env s f w))"
  using assms
  by (auto simp: action_def evolves_refl split: option.splits sum.splits intro!: evolves_inside)

lemma tell_evolves: "evolves env t egg w (snd (tell l m w))"
  by (auto simp: tell_def say_def intro!: evolves_inside same_except_refl)

lemma say_evolves: "evolves env t egg w (say l m w)"
  by (auto simp: say_def intro!: evolves_inside same_except_refl)

lemma unzip_evolves:
  assumes "strict_prefix t dest"
  shows "evolves env t egg w (snd (unzip env a dest w))"
proof -
  have "\<And>z fs fs'. extractall dest z fs = Inr fs' \<Longrightarrow> same_except (strict_prefix t) fs fs'"
  proof -
    fix z fs fs' assume e: "extractall dest z fs = Inr fs'"
    show "same_except (strict_prefix t) fs fs'"
    proof (rule extractall_frame [OF e])
      fix p assume "prefix dest p"
      then show "strict_prefix t p" using assms by (rule prefix_order.less_le_trans [rotated])
    qed
  qed
  then show ?thesis
    by (auto simp: unzip_def evolves_refl action_evolves split: option.splits sum.splits)
qed

lemma require_exists_evolves: "evolves env t egg w (snd (require_exists p m w))"
  by (simp add: require_exists_def evolves_refl say_evolves)

lemma run_compiler_evolves:
  assumes "strict_prefix t out"
  shows "evolves env t egg w (snd (run_compiler env src out w))"
  using compileall_frame [of "strict_prefix t" out "files w" env src] assms
  by (auto simp: run_compiler_def Let_def say_def evolves_refl split: option.splits intro!: evolves_inside)

lemma run_steps_evolves:
  assumes "\<forall>s \<in> set ss. \<forall>w. evolves env t egg w (snd (s w))"
  shows "evolves env t egg w (snd (run_steps ss w))"
  using run_steps_rel [where R = "\<lambda>sg. evolves env t egg" and ss = ss and w = w] assms
    evolves_refl evolves_trans by blast

lemma remove_source_evolves:
  assumes "strict_prefix t p"
  shows "evolves env t egg w (snd (remove_source env p w))"
proof -
  have u: "\<And>fs fs'. unlink_missing_ok p fs = Inr fs' \<Longrightarrow> same_except (strict_prefix t) fs fs'"
    using assms by (rule_tac unlink_frame) auto
  show ?thesis
  proof (cases "DEBUG_MODE env")
    case True
    then show ?thesis by (simp add: remove_source_def tell_evolves)
  next
    case False
    have "evolves env t egg w
            (snd (run_steps [action env AtUnlink (unlink_missing_ok p), tell DEBUG (RemovedSource p)] w))"
      by (rule run_steps_evolves) (simp add: tell_evolves action_evolves [OF u])
    then show ?thesis using False by (simp add: remove_source_def)
  qed
qed

lemma backup_evolves: "evolves env t egg w (snd (backup env egg w))"
proof -
  let ?bp = "backup_path env egg"
  have c: "\<And>fs'. copy2 egg ?bp (files w) = Inr fs'
      \<Longrightarrow> evolves env t egg w (say DEBUG (BackedUp ?bp) (w\<lparr>files := fs'\<rparr>))"
  proof -
    fix fs' assume "copy2 egg ?bp (files w) = Inr fs'"
    then have "same_except (\<lambda>p. p = ?bp \<or> p = ?bp @ [last egg]) (files w) fs'"
      by (rule copy2_frame) auto
    then show "evolves env t egg w (say DEBUG (BackedUp ?bp) (w\<lparr>files := fs'\<rparr>))"
      by (auto simp: evolves_def say_def allowed_def same_except_def)
  qed
  show ?thesis
    by (auto simp: backup_def evolves_refl say_evolves c split: option.splits sum.splits)
qed

lemma backup_Continue_done: "backup env egg w = (Continue, w1) \<Longrightarrow> backup_done (log w1)"
  by (auto simp: backup_def say_def backup_done_def split: option.splits sum.splits if_splits)

lemma deploy_evolves:
  assumes "backup_done (log w)"
  shows "evolves env t egg w
     (snd (run_steps [deploy env (dest_egg t egg) egg, tell DEBUG (Deployed egg)] w))"
proof (cases "fault env AtDeploy")
  case (Some e)
  then show ?thesis using assms
    by (auto simp: deploy_def evolves_def allowed_def same_except_def lookup_put
        split: option.splits)
next
  case None
  show ?thesis
  proof (cases "copy2 (dest_egg t egg) egg (files w)")
    case (Inl e)
    then show ?thesis using None by (simp add: deploy_def evolves_refl)
  next
    case (Inr fs')
    then have "same_except (\<lambda>p. p = egg \<or> p = egg @ [last (dest_egg t egg)]) (files w) fs'"
      by (rule copy2_frame) auto
    then have "same_except (\<lambda>p. p = egg \<or> p = egg @ [last egg]) (files w) fs'"
      by (simp add: dest_egg_def)
    then show ?thesis using None Inr
      by (auto simp: deploy_def tell_def say_def evolves_def allowed_def same_except_def)
  qed
qed

lemma finish_evolves:
  "evolves env t egg w
     (snd (run_steps [backup env egg, deploy env (dest_egg t egg) egg, tell DEBUG (Deployed egg)] w))"
proof -
  obtain sg w1 where b: "backup env egg w = (sg, w1)" by (cases "backup env egg w")
  have e1: "evolves env t egg w w1" using backup_evolves [of env t egg w] b by simp
  show ?thesis
  proof (cases "sg = Continue")
    case True
    then have "backup_done (log w1)" using b backup_Continue_done by blast
    from deploy_evolves [OF this, of env t egg]
    have "evolves env t egg w1
       (snd (run_steps [deploy env (dest_egg t egg) egg, tell DEBUG (Deployed egg)] w1))" .
    with e1 have "evolves env t egg w
       (snd (run_steps [deploy env (dest_egg t egg) egg, tell DEBUG (Deployed egg)] w1))"
      by (rule evolves_trans)
    then show ?thesis using b True by simp
  next
    case False
    then show ?thesis using b e1 by simp
  qed
qed

lemma patch_steps_split:
  "patch_steps env egg t =
     take 15 (patch_steps env egg t) @
       [backup env egg, deploy env (dest_egg t egg) egg, tell DEBUG (Deployed egg)]"
  by (simp add: patch_steps_def)

lemma run_steps_last_three:
  "run_steps (xs @ [a, b, c]) w = run_steps (xs @ [run_steps [a, b, c]]) w"
proof -
  have "run_steps [run_steps [a, b, c]] = run_steps [a, b, c]"
    by (rule ext) (rule run_steps_single)
  then show ?thesis by (simp only: run_steps_append)
qed

lemma prefix_workspace [simp]:
  "strict_prefix t (dest_egg t egg)" "strict_prefix t (extract_dir t)" "strict_prefix t (lic_dir t)"
  "strict_prefix t (old_pyc t)" "strict_prefix t (new_pyc t)" "strict_prefix t (new_py t)"
  "strict_prefix t (pyc_file t)"
  by (simp_all add: dest_egg_def extract_dir_def lic_dir_def old_pyc_def new_pyc_def new_py_def
      pyc_file_def strict_prefix_def)

lemma below_workspace: "strict_prefix t d \<Longrightarrow> prefix d p \<Longrightarrow> strict_prefix t p"
  by (rule prefix_order.less_le_trans)

lemma patch_steps_evolves:
  "evolves env t egg w (snd (run_steps (patch_steps env egg t) w))"
proof -
  have c1: "\<And>fs fs'. copy2 egg (dest_egg t egg) fs = Inr fs' \<Longrightarrow> same_except (strict_prefix t) fs fs'"
    by (rule copy2_frame) (auto simp: dest_egg_def strict_prefix_def)
  have c2: "\<And>fs fs'. mkdir (extract_dir t) fs = Inr fs' \<Longrightarrow> same_except (strict_prefix t) fs fs'"
    by (rule mkdir_frame) auto
  have c3: "\<And>fs fs'. rename (old_pyc t) (new_pyc t) fs = Inr fs' \<Longrightarrow> same_except (strict_prefix t) fs fs'"
  proof -
    fix fs fs' assume r: "rename (old_pyc t) (new_pyc t) fs = Inr fs'"
    show "same_except (strict_prefix t) fs fs'"
    proof (rule rename_frame [OF r])
      fix p assume "prefix (old_pyc t) p"
      then show "strict_prefix t p" using below_workspace [of t "old_pyc t"] by simp
    next
      fix p assume "prefix (new_pyc t) p"
      then show "strict_prefix t p" using below_workspace [of t "new_pyc t"] by simp
    qed
  qed
  have c4: "\<And>fs fs'. write_file (new_py t) FacadeSrc fs = Inr fs' \<Longrightarrow> same_except (strict_prefix t) fs fs'"
    by (rule write_file_frame) auto
  have c5: "\<And>fs fs'. repack (extract_dir t) (dest_egg t egg) fs = Inr fs' \<Longrightarrow> same_except (strict_prefix t) fs fs'"
    by (rule repack_frame) auto
  have "evolves env t egg w
     (snd (run_steps (take 15 (patch_steps env egg t) @
        [run_steps [backup env egg, deploy env (dest_egg t egg) egg, tell DEBUG (Deployed egg)]]) w))"
    apply (rule run_steps_evolves)
    apply (simp add: patch_steps_def del: run_steps.simps)
    apply (intro conjI allI)
    apply (simp_all only: action_evolves [OF c1] action_evolves [OF c2] action_evolves [OF c3]
        action_evolves [OF c4] action_evolves [OF c5] tell_evolves unzip_evolves [OF prefix_workspace(2)]
        require_exists_evolves run_compiler_evolves [OF prefix_workspace(7)]
        remove_source_evolves [OF prefix_workspace(6)] finish_evolves)
    done
  then show ?thesis
    using run_steps_last_three patch_steps_split by metis
qed

lemma fnmatch_literal:
  "p \<noteq> CHR ''*'' \<Longrightarrow> p \<noteq> CHR ''?'' \<Longrightarrow> fnmatch (p # ps) s = (\<exists>s'. s = p # s' \<and> fnmatch ps s')"
  by (cases s) auto

lemma egg_name_prefix: "fnmatch EGG_PATTERN x \<Longrightarrow> \<exists>r. x = ''pyovpn-'' @ r"
  by (auto simp: EGG_PATTERN_def fnmatch_literal simp del: fnmatch.simps)

lemma glob_member:
  "e \<in> set (glob d pat fs) \<Longrightarrow> e \<noteq> [] \<and> butlast e = d \<and> fnmatch pat (last e)"
  by (auto simp: glob_def)

lemma mkdtemp_shape:
  "mkdtemp env pre fs = Inr (t, fs1) \<Longrightarrow>
     \<exists>n. t = gettempdir env @ [pre @ n] \<and> fs1 = put t Dir fs \<and> lookup fs t = None"
  by (auto simp: mkdtemp_def mkdir_def exists_def split: list.splits sum.splits if_splits
      dest!: arg_cong [where f = set] )

lemma egg_shape:
  assumes "e \<in> set (glob EGG_DIR EGG_PATTERN fs)"
  shows "\<exists>r. e = EGG_DIR @ [''pyovpn-'' @ r]"
proof -
  from glob_member [OF assms] have a: "e \<noteq> []" "butlast e = EGG_DIR" "fnmatch EGG_PATTERN (last e)"
    by auto
  from egg_name_prefix [OF a(3)] obtain r where "last e = ''pyovpn-'' @ r" by blast
  then have "e = EGG_DIR @ [''pyovpn-'' @ r]" using a(1,2) by (metis append_butlast_last_id)
  then show ?thesis by blast
qed

lemma egg_not_in_workspace:
  assumes "e \<in> set (glob EGG_DIR EGG_PATTERN fs)"
  shows "\<not> prefix (g @ [''pyovpn_patch_'' @ n]) e"
proof
  assume p: "prefix (g @ [''pyovpn_patch_'' @ n]) e"
  from egg_shape [OF assms] obtain r where e: "e = EGG_DIR @ [''pyovpn-'' @ r]" by blast
  have "''pyovpn_patch_'' @ n \<in> set e" using set_mono_prefix [OF p] by auto
  then show False using e by (auto simp: EGG_DIR_def)
qed

lemma egg_not_backup:
  assumes "e \<in> set (glob EGG_DIR EGG_PATTERN fs)"
  shows "e \<noteq> backup_path env x" "e \<noteq> backup_path env x @ [y]"
  using egg_shape [OF assms] by (auto simp: EGG_DIR_def backup_path_def BACKUP_DIR_def)

lemma egg_not_below_egg:
  assumes "e \<in> set (glob EGG_DIR EGG_PATTERN fs)" "e' \<in> set (glob EGG_DIR EGG_PATTERN fs)"
  shows "e \<noteq> e' @ [y]"
  using egg_shape [OF assms(1)] egg_shape [OF assms(2)] by (auto simp: EGG_DIR_def)

text \<open>The ways \<open>patch\<close> can go.\<close>

lemma patch_cases:
  assumes "patch env fs = (unc, w)"
  obtains
    (no_egg) "glob EGG_DIR EGG_PATTERN fs = []" "files w = fs" "unc = None"
      "log w = [(INFO, StartingPatchWorkflow), (ERROR, NoEggFileMatching), (ERROR, AbortingMissingEgg)]"
  | (not_file) egg es where "glob EGG_DIR EGG_PATTERN fs = egg # es" "\<not> is_file fs egg"
      "files w = fs" "unc = None"
      "set (log w) \<subseteq> {(INFO, StartingPatchWorkflow), (WARNING, MultipleEggFiles (glob EGG_DIR EGG_PATTERN fs)),
          (ERROR, SourceEggNotFound egg), (ERROR, EnsureRunAsRoot)}"
  | (no_temp) egg es e where "glob EGG_DIR EGG_PATTERN fs = egg # es" "is_file fs egg"
      "mkdtemp env ''pyovpn_patch_'' fs = Inl e" "files w = fs" "unc = Some e"
      "set (log w) \<subseteq> {(INFO, StartingPatchWorkflow), (WARNING, MultipleEggFiles (glob EGG_DIR EGG_PATTERN fs))}"
  | (run) egg es t fs1 w2 sg w3 w4 where "glob EGG_DIR EGG_PATTERN fs = egg # es" "is_file fs egg"
      "mkdtemp env ''pyovpn_patch_'' fs = Inr (t, fs1)"
      "files w2 = fs1"
      "set (log w2) \<subseteq> {(INFO, StartingPatchWorkflow), (WARNING, MultipleEggFiles (glob EGG_DIR EGG_PATTERN fs)),
          (DEBUG, CreatedTempDir t)}"
      "run_steps (patch_steps env egg t) w2 = (sg, w3)"
      "handlers sg w3 = (unc, w4)" "w = finally_clause env t w4"
proof (cases "glob EGG_DIR EGG_PATTERN fs")
  case Nil
  then show ?thesis using assms no_egg
    by (auto simp: patch_def find_source_egg_def say_def)
next
  case (Cons egg es)
  let ?w0 = "say INFO StartingPatchWorkflow \<lparr>files = fs, log = []\<rparr>"
  obtain w1 where f: "find_source_egg ?w0 = (Some egg, w1)" and w1f: "files w1 = fs"
    and w1l: "set (log w1) \<subseteq> {(INFO, StartingPatchWorkflow),
       (WARNING, MultipleEggFiles (glob EGG_DIR EGG_PATTERN fs))}"
    using Cons by (auto simp: find_source_egg_def say_def Let_def)
  have mem: "egg \<in> set (glob EGG_DIR EGG_PATTERN fs)" using Cons by simp
  show ?thesis
  proof (cases "is_file fs egg")
    case False
    have "patch env fs = (None, say ERROR EnsureRunAsRoot (say ERROR (SourceEggNotFound egg) w1))"
      using f False w1f by (simp add: patch_def Let_def)
    then have u: "unc = None" and w: "w = say ERROR EnsureRunAsRoot (say ERROR (SourceEggNotFound egg) w1)"
      using assms by auto
    have "files w = fs" using w w1f by (simp add: say_def)
    moreover have "set (log w) \<subseteq> {(INFO, StartingPatchWorkflow),
        (WARNING, MultipleEggFiles (glob EGG_DIR EGG_PATTERN fs)),
        (ERROR, SourceEggNotFound egg), (ERROR, EnsureRunAsRoot)}"
      using w w1l by (auto simp: say_def)
    ultimately show ?thesis using not_file [of egg es] Cons False u by blast
  next
    case True
    show ?thesis
    proof (cases "mkdtemp env ''pyovpn_patch_'' fs")
      case (Inl e)
      then have "acquire_temp_dir env w1 = Inl e"
        by (simp add: acquire_temp_dir_def setup_temp_dir_def w1f)
      then show ?thesis using assms f w1f w1l Cons True Inl no_temp [of egg es e]
        by (auto simp: patch_def Let_def)
    next
      case (Inr r)
      obtain t fs1 where r: "r = (t, fs1)" by (cases r)
      define w2 where "w2 = (if DEBUG_MODE env then say DEBUG (CreatedTempDir t) (w1\<lparr>files := fs1\<rparr>)
                             else w1\<lparr>files := fs1\<rparr>)"
      have a: "acquire_temp_dir env w1 = Inr (t, w2)"
        using Inr r w1f by (simp add: acquire_temp_dir_def setup_temp_dir_def w2_def)
      have w2f: "files w2 = fs1" by (simp add: w2_def say_def)
      have w2l: "set (log w2) \<subseteq> {(INFO, StartingPatchWorkflow),
          (WARNING, MultipleEggFiles (glob EGG_DIR EGG_PATTERN fs)), (DEBUG, CreatedTempDir t)}"
        using w1l by (auto simp: w2_def say_def)
      obtain sg w3 where rs: "run_steps (patch_steps env egg t) w2 = (sg, w3)"
        by (cases "run_steps (patch_steps env egg t) w2")
      obtain u w4 where h: "handlers sg w3 = (u, w4)" by (cases "handlers sg w3")
      have "patch env fs = (u, finally_clause env t w4)"
        using f True a rs h w1f by (simp add: patch_def Let_def)
      then have "unc = u" "w = finally_clause env t w4" using assms by auto
      then show ?thesis using run [of egg es t fs1 w2 sg w3 w4] Cons True Inr r w2f w2l rs h
        by simp
    qed
  qed
qed

lemma run_steps_traces:
  assumes "list_all2 (\<lambda>s ce. logs_as s (fst ce) (snd ce)) ss specs"
  shows "\<exists>ms. log (snd (run_steps ss w)) = log w @ ms \<and> traces specs (fst (run_steps ss w) = Continue) ms"
  using assms
proof (induction ss specs arbitrary: w rule: list_all2_induct)
  case Nil
  then show ?case by simp
next
  case (Cons s ss ce specs)
  obtain sg w' where sw: "s w = (sg, w')" by (cases "s w")
  from Cons.hyps(1) obtain ms where ms: "log w' = log w @ ms"
    "if sg = Continue then ms \<in> fst ce else ms \<in> snd ce"
    unfolding logs_as_def using sw by (metis fst_conv snd_conv)
  show ?case
  proof (cases "sg = Continue")
    case True
    from Cons.IH [of w'] obtain ms' where
      r: "log (snd (run_steps ss w')) = log w' @ ms'"
         "traces specs (fst (run_steps ss w') = Continue) ms'" by blast
    have "log (snd (run_steps (s # ss) w)) = log w @ (ms @ ms')" using sw True r ms by simp
    moreover have "traces (ce # specs) (fst (run_steps (s # ss) w) = Continue) (ms @ ms')"
      using sw True r ms by auto
    ultimately show ?thesis by blast
  next
    case False
    then show ?thesis using sw ms by auto
  qed
qed

lemma logs_as_action: "logs_as (action env site f) {[]} {[]}"
  by (auto simp: logs_as_def action_def split: option.splits sum.splits)

lemma logs_as_tell: "logs_as (tell l m) {[(l, m)]} {}"
  by (auto simp: logs_as_def tell_def say_def)

lemma logs_as_unzip: "logs_as (unzip env a d) {[]} {[]}"
  by (auto simp: logs_as_def unzip_def action_def split: option.splits sum.splits)

lemma logs_as_require_exists: "logs_as (require_exists p m) {[]} {[(ERROR, m)]}"
  by (auto simp: logs_as_def require_exists_def say_def)

lemma logs_as_run_compiler:
  "logs_as (run_compiler env src out) {[(DEBUG, Compiled)]}
     {[], [(ERROR, CompilationFailed), (ERROR, CompilerStdout), (ERROR, CompilerStderr)]}"
  by (auto simp: logs_as_def run_compiler_def say_def Let_def split: option.splits)

lemma logs_as_remove_source:
  "logs_as (remove_source env p) {[(DEBUG, LeftSource p)], [(DEBUG, RemovedSource p)]} {[]}"
  by (auto simp: logs_as_def remove_source_def tell_def say_def action_def Let_def
      split: option.splits sum.splits)

lemma logs_as_backup:
  "logs_as (backup env egg) {[(DEBUG, BackedUp (backup_path env egg))], [(WARNING, NoLiveEggToBackUp)]} {[]}"
  by (auto simp: logs_as_def backup_def say_def split: option.splits sum.splits)

lemma logs_as_deploy: "logs_as (deploy env src egg) {[]} {[]}"
  by (auto simp: logs_as_def deploy_def split: option.splits sum.splits)

lemma patch_steps_traces:
  "\<exists>ms. log (snd (run_steps (patch_steps env egg t) w)) = log w @ ms \<and>
     traces (patch_traces env egg t) (fst (run_steps (patch_steps env egg t) w) = Continue) ms"
  apply (rule run_steps_traces)
  apply (simp add: patch_steps_def patch_traces_def logs_as_action logs_as_tell logs_as_unzip
      logs_as_require_exists logs_as_run_compiler logs_as_remove_source logs_as_backup
      logs_as_deploy)
  done

lemma traces_deployed:
  "traces (patch_traces env egg t) cont ms \<Longrightarrow> (l, Deployed e) \<in> set ms \<Longrightarrow> cont \<and> e = egg \<and> l = DEBUG"
  by (auto simp: patch_traces_def)

lemma traces_continue_no_error:
  "traces (patch_traces env egg t) True ms \<Longrightarrow> (ERROR, m) \<notin> set ms"
  by (auto simp: patch_traces_def)

lemma quiet_tail: "list_all (\<lambda>r'. \<not> is_progress (snd r')) rest \<Longrightarrow> quiet_after_error rest"
  by (induction rest) auto

lemma traces_quiet:
  "traces (patch_traces env egg t) cont ms \<Longrightarrow> list_all (\<lambda>r'. \<not> is_progress (snd r')) rest
     \<Longrightarrow> quiet_after_error (ms @ rest)"
  by (auto simp: patch_traces_def is_progress_def quiet_tail)

lemma traces_missing_module:
  "traces (patch_traces env egg t) cont ms \<Longrightarrow> (l, ExpectedNotFound p) \<in> set ms \<Longrightarrow>
     \<not> cont \<and> ms = [(DEBUG, CopiedEgg (dest_egg t egg)), (DEBUG, ExtractedEgg (extract_dir t)),
            (ERROR, ExpectedNotFound (old_pyc t))]"
  by (auto simp: patch_traces_def)

lemma traces_backed_up:
  "traces (patch_traces env egg t) cont ms \<Longrightarrow> (l, BackedUp p) \<in> set ms \<Longrightarrow>
     p = backup_path env egg \<and> (DEBUG, Compiled) \<in> set ms"
  by (auto simp: patch_traces_def)

lemma handlers_effect:
  assumes "handlers sg w3 = (unc, w4)"
  shows "files w4 = files w3"
    and "\<exists>hs. log w4 = log w3 @ hs \<and> (\<forall>r \<in> set hs. fst r = ERROR \<and> \<not> is_progress (snd r))
           \<and> ((\<forall>e. sg \<noteq> Raise e) \<longrightarrow> hs = [])"
    and "unc \<noteq> None \<Longrightarrow> sg \<noteq> Continue"
  using assms
  by (auto simp: handlers_def say_def is_progress_def split: signal.splits if_splits)

lemma finally_effect:
  "\<exists>fl. log (finally_clause env t w4) = log w4 @ fl \<and> set fl \<subseteq> {(DEBUG, CleanedUp t)}"
  "same_except (prefix t) (files w4) (files (finally_clause env t w4))"
  by (auto simp: finally_clause_def say_def same_except_refl rmtree_frame)

text \<open>The log and the files of a run that got as far as the \<^verbatim>\<open>try\<close> block.\<close>

lemma run_summary:
  assumes "mkdtemp env ''pyovpn_patch_'' fs = Inr (t, fs1)" "files w2 = fs1"
    "run_steps (patch_steps env egg t) w2 = (sg, w3)"
    "handlers sg w3 = (unc, w4)" "w = finally_clause env t w4"
  shows "\<exists>ms hs fl. log w = log w2 @ ms @ hs @ fl
           \<and> traces (patch_traces env egg t) (sg = Continue) ms
           \<and> (\<forall>r \<in> set hs. fst r = ERROR \<and> \<not> is_progress (snd r))
           \<and> ((\<forall>e. sg \<noteq> Raise e) \<longrightarrow> hs = [])
           \<and> set fl \<subseteq> {(DEBUG, CleanedUp t)}"
    and "same_except (\<lambda>p. p = t \<or> allowed env t egg (log w) p) fs (files w)"
    and "evolves env t egg w2 w3" and "files w4 = files w3"
proof -
  from patch_steps_traces [of env egg t w2] assms(3) obtain ms where
    ms: "log w3 = log w2 @ ms" "traces (patch_traces env egg t) (sg = Continue) ms" by auto
  from handlers_effect(2) [OF assms(4)] obtain hs where
    hs: "log w4 = log w3 @ hs" "\<forall>r \<in> set hs. fst r = ERROR \<and> \<not> is_progress (snd r)"
        "(\<forall>e. sg \<noteq> Raise e) \<longrightarrow> hs = []" by blast
  from finally_effect(1) [of env t w4] obtain fl where
    fl: "log w = log w4 @ fl" "set fl \<subseteq> {(DEBUG, CleanedUp t)}" using assms(5) by blast
  show "\<exists>ms hs fl. log w = log w2 @ ms @ hs @ fl
           \<and> traces (patch_traces env egg t) (sg = Continue) ms
           \<and> (\<forall>r \<in> set hs. fst r = ERROR \<and> \<not> is_progress (snd r))
           \<and> ((\<forall>e. sg \<noteq> Raise e) \<longrightarrow> hs = [])
           \<and> set fl \<subseteq> {(DEBUG, CleanedUp t)}"
  proof (intro exI conjI)
    show "log w = log w2 @ ms @ hs @ fl" using ms hs fl by simp
  qed (use ms hs fl in blast)+
  let ?A = "\<lambda>L p. p = t \<or> allowed env t egg L p"
  from mkdtemp_shape [OF assms(1)] have "fs1 = put t Dir fs" by blast
  then have 1: "same_except (\<lambda>p. p = t) fs (files w2)" using assms(2) by (simp add: same_except_put)
  show 2: "evolves env t egg w2 w3"
    using patch_steps_evolves [of env t egg w2] assms(3) by simp
  show "files w4 = files w3" using handlers_effect(1) [OF assms(4)] .
  have sub: "set (log w3) \<subseteq> set (log w)" using hs fl by auto
  have 3: "same_except (?A (log w)) (files w2) (files w3)"
    using 2 sub by (auto simp: evolves_def intro: same_except_mono allowed_mono)
  have 4: "same_except (prefix t) (files w3) (files w)"
    using finally_effect(2) [of t w4 env] handlers_effect(1) [OF assms(4)] assms(5) by simp
  have a1: "same_except (?A (log w)) fs (files w2)"
    using 1 by (rule same_except_mono) simp
  have a4: "same_except (?A (log w)) (files w3) (files w)"
    using 4 by (rule same_except_mono) (auto simp: allowed_def strict_prefix_def)
  show "same_except (?A (log w)) fs (files w)"
    using a1 3 a4 by (blast intro: same_except_trans)
qed

lemma quiet_after_quiet_prefix:
  "\<forall>r \<in> set pre. fst r \<noteq> ERROR \<Longrightarrow> quiet_after_error (pre @ rest) = quiet_after_error rest"
  by (induction pre) auto

lemma run_log_facts:
  assumes "set (log w2) \<subseteq> {(INFO, StartingPatchWorkflow), (WARNING, MultipleEggFiles gs),
          (DEBUG, CreatedTempDir t)}"
    and "log w = log w2 @ ms @ hs @ fl"
    and "traces (patch_traces env egg t) (sg = Continue) ms"
    and "\<forall>r \<in> set hs. fst r = ERROR \<and> \<not> is_progress (snd r)"
    and "(\<forall>e. sg \<noteq> Raise e) \<longrightarrow> hs = []"
    and "set fl \<subseteq> {(DEBUG, CleanedUp t)}"
  shows "quiet_after_error (log w)"
    and "(l, Deployed e) \<in> set (log w) \<Longrightarrow> sg = Continue \<and> e = egg \<and> (\<forall>m. (ERROR, m) \<notin> set (log w))"
    and "(l, Deployed e) \<in> set (log w) \<Longrightarrow> (l, Deployed e) \<in> set ms"
proof -
  have pre: "\<forall>r \<in> set (log w2). fst r \<noteq> ERROR" using assms(1) by auto
  have "list_all (\<lambda>r'. \<not> is_progress (snd r')) (hs @ fl)"
    using assms(4,6) by (auto simp: list_all_iff is_progress_def)
  then have "quiet_after_error (ms @ hs @ fl)" using traces_quiet [OF assms(3)] by blast
  then show "quiet_after_error (log w)" using assms(2) quiet_after_quiet_prefix [OF pre] by simp
  show in_ms: "(l, Deployed e) \<in> set ms" if "(l, Deployed e) \<in> set (log w)"
    using that assms(1,2,4,6) by (auto simp: is_progress_def)
  show "sg = Continue \<and> e = egg \<and> (\<forall>m. (ERROR, m) \<notin> set (log w))"
    if d: "(l, Deployed e) \<in> set (log w)"
  proof -
    from traces_deployed [OF assms(3) in_ms [OF d]] have c: "sg = Continue" "e = egg" by auto
    then have "hs = []" using assms(5) by simp
    moreover have "\<forall>m. (ERROR, m) \<notin> set ms" using traces_continue_no_error assms(3) c by auto
    ultimately show ?thesis using c assms(1,2,6) by auto
  qed
qed

lemma traces_backup_done:
  "traces (patch_traces env egg t) cont ms \<Longrightarrow> (l, Deployed e) \<in> set ms \<Longrightarrow> backup_done ms"
  by (auto simp: patch_traces_def backup_done_def)

text \<open>
  Claim C3. In every run and for every archive \<open>e\<close> of the source directory that matches
  the pattern: unless the log records the deploy of \<open>e\<close>, the file at \<open>e\<close> is the one
  from before the run (a deploy copy that itself fails after the backup step may have
  written already, which is the one way to change it without the record); a run that
  logs an error or lets an exception escape has not deployed; and once an error is logged
  no later step reports progress.
\<close>

theorem live_archive_written_only_by_deploy:
  assumes "patch env fs = (unc, w)" and "e \<in> set (glob EGG_DIR EGG_PATTERN fs)"
  shows "((DEBUG, Deployed e) \<notin> set (log w) \<and> (fault env AtDeploy = None \<or> \<not> backup_done (log w))
            \<longrightarrow> lookup (files w) e = lookup fs e)
       \<and> (((\<exists>m. (ERROR, m) \<in> set (log w)) \<or> unc \<noteq> None) \<longrightarrow> (DEBUG, Deployed e) \<notin> set (log w))
       \<and> quiet_after_error (log w)"
  using assms(1)
proof (cases rule: patch_cases)
  case no_egg
  then show ?thesis using assms(2) by simp
next
  case (not_file egg es)
  have "list_all (\<lambda>r'. \<not> is_progress (snd r')) (log w)"
    using not_file(5) by (auto simp: list_all_iff is_progress_def)
  then have "quiet_after_error (log w)" by (rule quiet_tail)
  moreover have "(DEBUG, Deployed e) \<notin> set (log w)" using not_file(5) by auto
  ultimately show ?thesis using not_file by simp
next
  case (no_temp egg es x)
  have "list_all (\<lambda>r'. \<not> is_progress (snd r')) (log w)"
    using no_temp(6) by (auto simp: list_all_iff is_progress_def)
  then have "quiet_after_error (log w)" by (rule quiet_tail)
  moreover have "(DEBUG, Deployed e) \<notin> set (log w)" using no_temp(6) by auto
  ultimately show ?thesis using no_temp by simp
next
  case (run egg es t fs1 w2 sg w3 w4)
  let ?bp = "backup_path env egg"
  from run_summary [OF run(3,4,6,7,8)] obtain ms hs fl where
    L: "log w = log w2 @ ms @ hs @ fl"
       "traces (patch_traces env egg t) (sg = Continue) ms"
       "\<forall>r \<in> set hs. fst r = ERROR \<and> \<not> is_progress (snd r)"
       "(\<forall>e. sg \<noteq> Raise e) \<longrightarrow> hs = []"
       "set fl \<subseteq> {(DEBUG, CleanedUp t)}"
    and F: "same_except (\<lambda>p. p = t \<or> allowed env t egg (log w) p) fs (files w)"
    by blast
  note facts = run_log_facts [OF run(5) L]
  have q: "quiet_after_error (log w)" by (rule facts(1))
  have d: "((\<exists>m. (ERROR, m) \<in> set (log w)) \<or> unc \<noteq> None) \<longrightarrow> (DEBUG, Deployed e) \<notin> set (log w)"
    using facts(2) [of DEBUG e] handlers_effect(3) [OF run(7)] by blast
  have u: "lookup (files w) e = lookup fs e"
    if nd: "(DEBUG, Deployed e) \<notin> set (log w)"
      and nf: "fault env AtDeploy = None \<or> \<not> backup_done (log w)"
  proof -
    from mkdtemp_shape [OF run(3)] obtain n where t: "t = gettempdir env @ [''pyovpn_patch_'' @ n]"
      by blast
    have mem: "egg \<in> set (glob EGG_DIR EGG_PATTERN fs)" using run(1) by simp
    have "\<not> prefix t e" using egg_not_in_workspace [OF assms(2)] t by simp
    moreover have "e \<noteq> ?bp" "e \<noteq> ?bp @ [last egg]" using egg_not_backup [OF assms(2)] by auto
    moreover have "e \<noteq> egg @ [last egg]" using egg_not_below_egg [OF assms(2) mem] by simp
    moreover have "\<not> ((DEBUG, Deployed egg) \<in> set (log w) \<and> e = egg)" using nd by auto
    ultimately have "\<not> (e = t \<or> allowed env t egg (log w) e)" using nf by (auto simp: allowed_def)
    then show ?thesis using F by (simp add: same_except_def)
  qed
  show ?thesis using q d u by blast
qed

lemma failing_cc_run:
  "patch failing_cc_env example_fs =
     (None,
      \<lparr>files = example_fs,
       log = [(INFO, StartingPatchWorkflow),
              (DEBUG, CopiedEgg [''tmp'', ''pyovpn_patch_a1b2c3d4'', ''pyovpn-1.2.3.egg'']),
              (DEBUG, ExtractedEgg [''tmp'', ''pyovpn_patch_a1b2c3d4'', ''extracted'']),
              (DEBUG, Renamed),
              (DEBUG, WroteNew [''tmp'', ''pyovpn_patch_a1b2c3d4'', ''extracted'', ''pyovpn'',
                               ''lic'', ''uprop.py'']),
              (ERROR, CompilationFailed), (ERROR, CompilerStdout), (ERROR, CompilerStderr),
              (DEBUG, CleanedUp [''tmp'', ''pyovpn_patch_a1b2c3d4''])]\<rparr>)"
  by code_simp

lemma example_glob: "glob EGG_DIR EGG_PATTERN example_fs = [live_egg]"
  by code_simp

theorem live_archive_written_only_by_deploy_witness:
  "lookup (files (snd (patch failing_cc_env example_fs))) live_egg = lookup example_fs live_egg
   \<and> (DEBUG, Deployed live_egg) \<notin> set (log (snd (patch failing_cc_env example_fs)))
   \<and> quiet_after_error (log (snd (patch failing_cc_env example_fs)))"
proof -
  have m: "live_egg \<in> set (glob EGG_DIR EGG_PATTERN example_fs)" by (simp add: example_glob)
  show ?thesis
    using live_archive_written_only_by_deploy [OF failing_cc_run m]
    by (simp add: failing_cc_run is_progress_def backup_done_def)
qed

lemma map_of_map_keys_None:
  assumes "\<forall>x \<in> set xs. fst (g x) \<noteq> k"
  shows "map_of (map g xs) k = None"
  using assms by (induction xs) (auto simp: map_of_eq_None_iff split: prod.splits)

lemma rename_removes_src:
  assumes "rename src dst fs = Inr fs'" "src \<noteq> dst" "\<not> prefix dst src" "src \<noteq> []"
  shows "lookup fs' src = None"
proof (cases "lookup fs src")
  case None
  then show ?thesis using assms by (simp add: rename_def)
next
  case (Some n)
  show ?thesis
  proof (cases n)
    case (File c)
    then show ?thesis using assms Some
      by (auto simp: rename_def lookup_put lookup_remove split: if_splits)
  next
    case Dir
    then have fs': "fs' = move_tree src dst fs" using assms Some
      by (auto simp: rename_def split: if_splits)
    have "\<forall>x \<in> set (remove dst fs).
            fst ((\<lambda>(q, n). if prefix src q then (dst @ drop (length src) q, n) else (q, n)) x) \<noteq> src"
      using assms(3) by (auto split: if_splits simp: prefix_def)
    then show ?thesis using assms(4)
      unfolding fs' move_tree_def lookup_def by (simp add: map_of_map_keys_None)
  qed
qed

lemma run_steps_Cons_Continue:
  assumes "run_steps (s # ss) w = (Continue, w'')"
  obtains w' where "s w = (Continue, w')" "run_steps ss w' = (Continue, w'')"
  using assms by (cases "s w") (auto simp: Let_def split: if_splits)

lemma run_steps_append_Continue:
  assumes "run_steps (xs @ ys) w = (Continue, w'')"
  obtains w' where "run_steps xs w = (Continue, w')" "run_steps ys w' = (Continue, w'')"
  using assms by (cases "run_steps xs w") (auto simp: run_steps_append split: if_splits)

lemma action_Continue:
  "action env site f w = (Continue, w') \<Longrightarrow> f (files w) = Inr (files w') \<and> log w' = log w"
  by (auto simp: action_def split: option.splits sum.splits)

lemma tell_Continue: "tell l m w = (sg, w') \<Longrightarrow> files w' = files w"
  by (auto simp: tell_def say_def)

lemma pyc_paths [simp]:
  "old_pyc t \<noteq> new_pyc t" "new_pyc t \<noteq> old_pyc t"
  "\<not> prefix (new_pyc t) (old_pyc t)" "old_pyc t \<noteq> []"
  "pyc_file t = old_pyc t" "new_py t \<noteq> old_pyc t" "old_pyc t \<noteq> new_py t"
  "new_py t \<noteq> []" "new_pyc t \<noteq> new_py t"
  "new_pyc t \<noteq> []"
  by (auto simp: old_pyc_def new_pyc_def new_py_def pyc_file_def)

text \<open>After the source of the new module is written it is the only \<^verbatim>\<open>uprop\<close> in place.\<close>

lemma module_swapped:
  assumes "run_steps [action env AtRename (rename (old_pyc t) (new_pyc t)), tell DEBUG Renamed,
             action env AtWriteText (write_file (new_py t) FacadeSrc),
             tell DEBUG (WroteNew (new_py t))] w = (Continue, w')"
  shows "lookup (files w') (old_pyc t) = None"
    and "lookup (files w') (new_py t) = Some (File FacadeSrc)"
proof -
  from assms obtain w1 where 1: "action env AtRename (rename (old_pyc t) (new_pyc t)) w = (Continue, w1)"
    and r1: "run_steps [tell DEBUG Renamed, action env AtWriteText (write_file (new_py t) FacadeSrc),
             tell DEBUG (WroteNew (new_py t))] w1 = (Continue, w')"
    by (rule run_steps_Cons_Continue)
  from r1 obtain w2 where 2: "tell DEBUG Renamed w1 = (Continue, w2)"
    and r2: "run_steps [action env AtWriteText (write_file (new_py t) FacadeSrc),
             tell DEBUG (WroteNew (new_py t))] w2 = (Continue, w')"
    by (rule run_steps_Cons_Continue)
  from r2 obtain w3 where 3: "action env AtWriteText (write_file (new_py t) FacadeSrc) w2 = (Continue, w3)"
    and r3: "run_steps [tell DEBUG (WroteNew (new_py t))] w3 = (Continue, w')"
    by (rule run_steps_Cons_Continue)
  from r3 have 4: "tell DEBUG (WroteNew (new_py t)) w3 = (Continue, w')"
    by (simp add: run_steps_single del: run_steps.simps)
  have a: "lookup (files w1) (old_pyc t) = None"
    using action_Continue [OF 1] by (auto intro: rename_removes_src)
  have b: "files w2 = files w1" using tell_Continue [OF 2] .
  have c: "write_file (new_py t) FacadeSrc (files w2) = Inr (files w3)"
    using action_Continue [OF 3] by simp
  then have c': "files w3 = put (new_py t) (File FacadeSrc) (files w2)"
    by (auto simp: write_file_def split: if_splits)
  have d: "files w' = files w3" using tell_Continue [OF 4] .
  show "lookup (files w') (old_pyc t) = None" using a b c' d by (simp add: lookup_put)
  show "lookup (files w') (new_py t) = Some (File FacadeSrc)" using c' d by (simp add: lookup_put)
qed

lemma compile_must_succeed:
  assumes "run_steps [run_compiler env (new_py t) (pyc_file t),
             require_exists (pyc_file t) (CompiledNotFound (pyc_file t))] w = (Continue, w')"
    and "lookup (files w) (old_pyc t) = None"
  shows "cc_returncode env = 0 \<and> cc_emits env"
proof -
  from assms(1) obtain w1 where 1: "run_compiler env (new_py t) (pyc_file t) w = (Continue, w1)"
    and r: "run_steps [require_exists (pyc_file t) (CompiledNotFound (pyc_file t))] w1 = (Continue, w')"
    by (rule run_steps_Cons_Continue)
  from r have 2: "require_exists (pyc_file t) (CompiledNotFound (pyc_file t)) w1 = (Continue, w')"
    by (simp add: run_steps_single del: run_steps.simps)
  from 1 have rc: "cc_returncode env = 0"
    and f: "files w1 = compileall env (new_py t) (pyc_file t) (files w)"
    by (auto simp: run_compiler_def Let_def say_def split: option.splits if_splits)
  from 2 have e: "exists (files w1) (old_pyc t)"
    by (auto simp: require_exists_def split: if_splits)
  have "cc_emits env"
  proof (rule ccontr)
    assume "\<not> cc_emits env"
    then have "files w1 = files w" using f
      by (auto simp: compileall_def split: option.splits node.splits)
    then show False using e assms(2) by (simp add: exists_def)
  qed
  then show ?thesis using rc by simp
qed

lemma patch_steps_split12:
  "patch_steps env egg t =
     take 6 (patch_steps env egg t) @
     [action env AtRename (rename (old_pyc t) (new_pyc t)), tell DEBUG Renamed,
      action env AtWriteText (write_file (new_py t) FacadeSrc),
      tell DEBUG (WroteNew (new_py t))] @
     [run_compiler env (new_py t) (pyc_file t),
      require_exists (pyc_file t) (CompiledNotFound (pyc_file t))] @
     drop 12 (patch_steps env egg t)"
  by (simp add: patch_steps_def)

lemma take12_split:
  "take 12 (patch_steps env egg t) =
     take 6 (patch_steps env egg t) @
     [action env AtRename (rename (old_pyc t) (new_pyc t)), tell DEBUG Renamed,
      action env AtWriteText (write_file (new_py t) FacadeSrc),
      tell DEBUG (WroteNew (new_py t))] @
     [run_compiler env (new_py t) (pyc_file t),
      require_exists (pyc_file t) (CompiledNotFound (pyc_file t))]"
  by (simp add: patch_steps_def)

lemma compile_failure_stops:
  assumes "cc_returncode env \<noteq> 0 \<or> \<not> cc_emits env"
  shows "fst (run_steps (take 12 (patch_steps env egg t)) w) \<noteq> Continue"
proof
  assume "fst (run_steps (take 12 (patch_steps env egg t)) w) = Continue"
  then obtain w' where c: "run_steps (take 12 (patch_steps env egg t)) w = (Continue, w')"
    by (cases "run_steps (take 12 (patch_steps env egg t)) w") auto
  from c [unfolded take12_split] obtain w6 where
    r: "run_steps ([action env AtRename (rename (old_pyc t) (new_pyc t)), tell DEBUG Renamed,
      action env AtWriteText (write_file (new_py t) FacadeSrc),
      tell DEBUG (WroteNew (new_py t))] @
     [run_compiler env (new_py t) (pyc_file t),
      require_exists (pyc_file t) (CompiledNotFound (pyc_file t))]) w6 = (Continue, w')"
    by (rule run_steps_append_Continue)
  from r obtain w10 where
    a: "run_steps [action env AtRename (rename (old_pyc t) (new_pyc t)), tell DEBUG Renamed,
      action env AtWriteText (write_file (new_py t) FacadeSrc),
      tell DEBUG (WroteNew (new_py t))] w6 = (Continue, w10)"
    and b: "run_steps [run_compiler env (new_py t) (pyc_file t),
      require_exists (pyc_file t) (CompiledNotFound (pyc_file t))] w10 = (Continue, w')"
    by (rule run_steps_append_Continue)
  from compile_must_succeed [OF b module_swapped(1) [OF a]] assms show False by simp
qed

lemma take12_traces:
  "\<exists>ms. log (snd (run_steps (take 12 (patch_steps env egg t)) w)) = log w @ ms \<and>
     traces (take 12 (patch_traces env egg t))
       (fst (run_steps (take 12 (patch_steps env egg t)) w) = Continue) ms"
  apply (rule run_steps_traces)
  apply (simp add: patch_steps_def patch_traces_def logs_as_action logs_as_tell logs_as_unzip
      logs_as_require_exists logs_as_run_compiler)
  done

lemma stopped_early:
  assumes "fst (run_steps (take n ss) w) \<noteq> Continue"
  shows "run_steps ss w = run_steps (take n ss) w"
proof -
  obtain sg w' where r: "run_steps (take n ss) w = (sg, w')" by (cases "run_steps (take n ss) w")
  have "run_steps (take n ss @ drop n ss) w = (sg, w')"
    using assms r by (simp only: run_steps_append) simp
  then show ?thesis using r by simp
qed

lemma take12_no_backup:
  "traces (take 12 (patch_traces env egg t)) False ms \<Longrightarrow>
     \<not> backup_done ms \<and> (\<forall>l p. (l, Deployed p) \<notin> set ms)"
  by (auto simp: patch_traces_def backup_done_def)

lemma backup_done_append: "backup_done (xs @ ys) = (backup_done xs \<or> backup_done ys)"
  by (auto simp: backup_done_def list_ex_iff)

text \<open>
  Claim C2. When the compiler exits with a non-zero status or emits no bytecode, the run
  never reaches the backup step (the log has neither the backup record nor the warning
  that replaces it) and deploys nothing; every path outside the temporary workspace,
  so every path of the backup directory and every archive of the source directory, holds
  after the run what it held before.
\<close>

theorem compile_failure_deploys_nothing:
  assumes "patch env fs = (unc, w)" and "cc_returncode env \<noteq> 0 \<or> \<not> cc_emits env"
  shows "\<not> backup_done (log w)
       \<and> (\<forall>l p. (l, Deployed p) \<notin> set (log w))
       \<and> (\<forall>p. (\<forall>t fs1. mkdtemp env ''pyovpn_patch_'' fs = Inr (t, fs1) \<longrightarrow> \<not> prefix t p)
              \<longrightarrow> lookup (files w) p = lookup fs p)
       \<and> (\<forall>e \<in> set (glob EGG_DIR EGG_PATTERN fs). lookup (files w) e = lookup fs e)"
  using assms(1)
proof (cases rule: patch_cases)
  case no_egg
  then show ?thesis by (simp add: backup_done_def)
next
  case (not_file egg es)
  have "\<not> backup_done (log w)" "\<forall>l p. (l, Deployed p) \<notin> set (log w)"
    using not_file(5) by (auto simp: backup_done_def list_ex_iff)
  then show ?thesis using not_file by simp
next
  case (no_temp egg es x)
  have "\<not> backup_done (log w)" "\<forall>l p. (l, Deployed p) \<notin> set (log w)"
    using no_temp(6) by (auto simp: backup_done_def list_ex_iff)
  then show ?thesis using no_temp by simp
next
  case (run egg es t fs1 w2 sg w3 w4)
  let ?ps = "patch_steps env egg t"
  have stop: "fst (run_steps (take 12 ?ps) w2) \<noteq> Continue"
    using compile_failure_stops [OF assms(2)] .
  then have same: "run_steps (take 12 ?ps) w2 = (sg, w3)"
    using stopped_early [OF stop] run(6) by simp
  from take12_traces [of env egg t w2] same stop obtain ms where
    ms: "log w3 = log w2 @ ms" "traces (take 12 (patch_traces env egg t)) False ms" by auto
  from handlers_effect(2) [OF run(7)] obtain hs where
    hs: "log w4 = log w3 @ hs" "\<forall>r \<in> set hs. fst r = ERROR \<and> \<not> is_progress (snd r)" by blast
  from finally_effect(1) [of env t w4] obtain fl where
    fl: "log w = log w4 @ fl" "set fl \<subseteq> {(DEBUG, CleanedUp t)}" using run(8) by blast
  have lw: "log w = log w2 @ ms @ hs @ fl" using ms hs fl by simp
  have nb_ms: "\<not> backup_done ms" "\<forall>l p. (l, Deployed p) \<notin> set ms"
    using take12_no_backup [OF ms(2)] by auto
  have nb_hs: "\<not> backup_done hs"
    using hs(2) by (auto simp: backup_done_def list_ex_iff is_progress_def split: msg.splits)
  have nb: "\<not> backup_done (log w)"
    using nb_ms(1) nb_hs run(5) fl(2) unfolding lw backup_done_append
    by (auto simp: backup_done_def list_ex_iff)
  have nd: "\<forall>l p. (l, Deployed p) \<notin> set (log w)"
    using nb_ms(2) hs(2) run(5) fl(2) unfolding lw by (auto simp: is_progress_def)
  have F: "same_except (\<lambda>p. p = t \<or> allowed env t egg (log w) p) fs (files w)"
    using run_summary(2) [OF run(3,4,6,7,8)] .
  have nbu: "(DEBUG, BackedUp (backup_path env egg)) \<notin> set (log w)"
    using nb by (auto simp: backup_done_def list_ex_iff)
  have out: "lookup (files w) p = lookup fs p" if "\<not> prefix t p" for p
    using F that nb nd nbu by (auto simp: same_except_def allowed_def)
  have o1: "\<forall>p. (\<forall>t fs1. mkdtemp env ''pyovpn_patch_'' fs = Inr (t, fs1) \<longrightarrow> \<not> prefix t p)
              \<longrightarrow> lookup (files w) p = lookup fs p"
    using out run(3) by blast
  have o2: "\<forall>e \<in> set (glob EGG_DIR EGG_PATTERN fs). lookup (files w) e = lookup fs e"
  proof
    fix e assume e: "e \<in> set (glob EGG_DIR EGG_PATTERN fs)"
    from mkdtemp_shape [OF run(3)] obtain n where "t = gettempdir env @ [''pyovpn_patch_'' @ n]"
      by blast
    then have "\<not> prefix t e" using egg_not_in_workspace [OF e] by simp
    then show "lookup (files w) e = lookup fs e" by (rule out)
  qed
  show ?thesis using nb nd o1 o2 by blast
qed

theorem compile_failure_deploys_nothing_witness:
  "\<not> backup_done (log (snd (patch failing_cc_env example_fs)))
   \<and> lookup (files (snd (patch failing_cc_env example_fs))) live_egg = lookup example_fs live_egg
   \<and> lookup (files (snd (patch failing_cc_env example_fs)))
        [''tmp'', ''pyovpn-1.2.3.egg.bak-20240305-100722'']
      = lookup example_fs [''tmp'', ''pyovpn-1.2.3.egg.bak-20240305-100722'']"
proof -
  have c: "cc_returncode failing_cc_env \<noteq> 0 \<or> \<not> cc_emits failing_cc_env"
    by (simp add: failing_cc_env_def example_env_def)
  show ?thesis
    using compile_failure_deploys_nothing [OF failing_cc_run c]
    by (simp add: failing_cc_run backup_done_def)
qed

lemma workspace_not_target:
  assumes "egg \<in> set (glob EGG_DIR EGG_PATTERN fs)" "t = g @ [''pyovpn_patch_'' @ n]"
  shows "\<not> allowed env t egg L t"
proof -
  from egg_shape [OF assms(1)] obtain r where e: "egg = EGG_DIR @ [''pyovpn-'' @ r]" by blast
  have "t \<noteq> egg" using egg_not_in_workspace [OF assms(1), of g n] assms(2) by auto
  moreover have "t \<noteq> egg @ [last egg]" using e assms(2) by auto
  moreover have "t \<noteq> backup_path env egg" "t \<noteq> backup_path env egg @ [last egg]"
    using e assms(2) by (auto simp: backup_path_def)
  ultimately show ?thesis by (auto simp: allowed_def)
qed

lemma traces_no_cleanup:
  "traces (patch_traces env egg t) cont ms \<Longrightarrow> (l, CleanedUp p) \<notin> set ms"
  by (auto simp: patch_traces_def)

lemma files_onlyD:
  "files_only s \<Longrightarrow> files w = files w' \<Longrightarrow>
     fst (s w) = fst (s w') \<and> files (snd (s w)) = files (snd (s w'))"
  unfolding files_only_def by blast

lemma run_steps_files_only:
  assumes "list_all files_only ss"
  shows "files_only (run_steps ss)"
  using assms
proof (induction ss)
  case Nil
  show ?case by (simp add: files_only_def)
next
  case (Cons s ss)
  have hd: "files_only s" and tl: "files_only (run_steps ss)" using Cons by simp_all
  show ?case unfolding files_only_def
  proof (intro allI impI)
    fix w w' :: world
    assume eq: "files w = files w'"
    obtain sg v where a: "s w = (sg, v)" by (cases "s w")
    obtain sg' v' where b: "s w' = (sg', v')" by (cases "s w'")
    from files_onlyD [OF hd eq] a b have same: "sg = sg'" "files v = files v'" by simp_all
    note rest = files_onlyD [OF tl same(2)]
    show "fst (run_steps (s # ss) w) = fst (run_steps (s # ss) w') \<and>
          files (snd (run_steps (s # ss) w)) = files (snd (run_steps (s # ss) w'))"
    proof (cases "sg = Continue")
      case True
      then show ?thesis using a b same(1) rest by simp
    next
      case False
      then show ?thesis using a b same by simp
    qed
  qed
qed

lemma action_files_only: "files_only (action env st f)"
  by (simp add: files_only_def action_def split: option.splits sum.splits)

lemma tell_files_only: "files_only (tell l m)"
  by (simp add: files_only_def tell_def say_def)

lemma unzip_files_only: "files_only (unzip env a d)"
  by (simp add: files_only_def unzip_def action_def split: option.splits sum.splits)

lemma require_exists_files_only: "files_only (require_exists p m)"
  by (simp add: files_only_def require_exists_def say_def)

lemma run_compiler_files_only: "files_only (run_compiler env src out)"
  by (simp add: files_only_def run_compiler_def say_def Let_def split: option.splits)

lemma remove_source_files_only: "files_only (remove_source env p)"
proof (cases "DEBUG_MODE env")
  case True
  then show ?thesis by (simp add: remove_source_def tell_files_only)
next
  case False
  have "files_only (run_steps [action env AtUnlink (unlink_missing_ok p), tell DEBUG (RemovedSource p)])"
    by (rule run_steps_files_only) (simp add: action_files_only tell_files_only)
  then show ?thesis using False by (simp add: remove_source_def del: run_steps.simps)
qed

lemma backup_files_only: "files_only (backup env egg)"
  by (simp add: files_only_def backup_def say_def split: option.splits sum.splits)

lemma deploy_files_only: "files_only (deploy env src egg)"
  by (simp add: files_only_def deploy_def split: option.splits sum.splits)

lemma patch_steps_files_only:
  assumes "files w = files w'"
  shows "files (snd (run_steps (patch_steps env egg t) w))
           = files (snd (run_steps (patch_steps env egg t) w'))"
proof -
  have "list_all files_only (patch_steps env egg t)"
    by (simp add: patch_steps_def action_files_only tell_files_only unzip_files_only
        require_exists_files_only run_compiler_files_only remove_source_files_only
        backup_files_only deploy_files_only)
  from files_onlyD [OF run_steps_files_only [OF this] assms] show ?thesis by simp
qed

text \<open>
  Claim C5. Take a run that creates its workspace \<open>t\<close> (an archive was found and is a file,
  and \<^verbatim>\<open>mkdtemp\<close> succeeded). However the \<^verbatim>\<open>try\<close> block ends (normally, by an early
  return, by a caught exception or by an interrupt that escapes), without the debug flag
  the removal runs and is logged, and a path at or below \<open>t\<close> that still exists is one whose
  removal failed or a directory above such a path; when no removal fails nothing is left.
  With the debug flag the removal is a no-op: the files after the run are exactly those
  the \<^verbatim>\<open>try\<close> block left when started on the file system with the fresh workspace, so the
  workspace and everything in it is retained; \<open>t\<close> is still a directory and no clean-up
  is logged.
\<close>

theorem workspace_released:
  assumes "patch env fs = (unc, w)" and "glob EGG_DIR EGG_PATTERN fs = egg # es"
    and "is_file fs egg" and "mkdtemp env ''pyovpn_patch_'' fs = Inr (t, fs1)"
  shows "(\<not> DEBUG_MODE env \<longrightarrow>
            (DEBUG, CleanedUp t) \<in> set (log w)
            \<and> (\<forall>p. prefix t p \<and> exists (files w) p \<longrightarrow> list_ex (prefix p) (rm_stuck env)))
       \<and> (\<not> DEBUG_MODE env \<and> rm_stuck env = [] \<longrightarrow> (\<forall>p. prefix t p \<longrightarrow> \<not> exists (files w) p))
       \<and> (DEBUG_MODE env \<longrightarrow>
            (\<forall>w2. files w2 = fs1 \<longrightarrow>
                 files w = files (snd (run_steps (patch_steps env egg t) w2)))
            \<and> is_dir (files w) t \<and> (DEBUG, CleanedUp t) \<notin> set (log w))"
  using assms(1)
proof (cases rule: patch_cases)
  case no_egg
  then show ?thesis using assms(2) by simp
next
  case (not_file egg' es')
  then show ?thesis using assms(2,3) by simp
next
  case (no_temp egg' es' x)
  then show ?thesis using assms(4) by simp
next
  case (run egg' es' t' fs1' w2 sg w3 w4)
  have eq: "egg' = egg" "t' = t" "fs1' = fs1" using run(1,3) assms(2,4) by auto
  note r = run [unfolded eq]
  from mkdtemp_shape [OF r(3)] obtain n where
    t: "t = gettempdir env @ [''pyovpn_patch_'' @ n]" and fs1: "fs1 = put t Dir fs" by blast
  have tne: "t \<noteq> []" using t by simp
  have mem: "egg \<in> set (glob EGG_DIR EGG_PATTERN fs)" using assms(2) by simp
  have ev: "evolves env t egg w2 w3" and f43: "files w4 = files w3"
    using run_summary(3,4) [OF r(3,4,6,7,8)] by auto
  have "lookup (files w3) t = lookup (files w2) t"
    using ev workspace_not_target [OF mem t] by (simp add: evolves_def same_except_def)
  then have dir4: "lookup (files w4) t = Some Dir"
    using f43 r(4) fs1 tne by (simp add: lookup_put)
  from run_summary(1) [OF r(3,4,6,7,8)] obtain ms hs fl where
    L: "log w = log w2 @ ms @ hs @ fl" "traces (patch_traces env egg t) (sg = Continue) ms"
       "\<forall>r \<in> set hs. fst r = ERROR \<and> \<not> is_progress (snd r)" by blast
  show ?thesis
  proof (cases "DEBUG_MODE env")
    case True
    then have w: "w = w4" using r(8) by (simp add: finally_clause_def)
    from patch_steps_traces [of env egg t w2] r(6) obtain ms0 where
      m0: "log w3 = log w2 @ ms0" "traces (patch_traces env egg t) (sg = Continue) ms0" by auto
    from handlers_effect(2) [OF r(7)] obtain hs0 where
      h0: "log w4 = log w3 @ hs0" "\<forall>r \<in> set hs0. fst r = ERROR \<and> \<not> is_progress (snd r)"
      by blast
    have nolog: "(DEBUG, CleanedUp t) \<notin> set (log w4)"
      using r(5) traces_no_cleanup [OF m0(2)] m0(1) h0 by auto
    have left: "files w = files (snd (run_steps (patch_steps env egg t) v))" if "files v = fs1" for v
    proof -
      have "files w2 = files v" using r(4) that by simp
      from patch_steps_files_only [OF this, of env egg t] show ?thesis
        using w f43 r(6) by simp
    qed
    show ?thesis using True w dir4 nolog left by (simp add: is_dir_def)
  next
    case False
    then have w: "w = say DEBUG (CleanedUp t)
                     (w4\<lparr>files := rmtree_ignore_errors (rm_stuck env) t (files w4)\<rparr>)"
      using r(8) dir4 by (simp add: finally_clause_def exists_def)
    have a: "(DEBUG, CleanedUp t) \<in> set (log w)" using w by (simp add: say_def)
    have b: "list_ex (prefix p) (rm_stuck env)" if "prefix t p" "exists (files w) p" for p
    proof -
      have "p \<noteq> []" using that(1) tne by auto
      then show ?thesis using that w by (auto simp: say_def exists_def lookup_rmtree split: if_splits)
    qed
    have c: "\<not> exists (files w) p" if "rm_stuck env = []" "prefix t p" for p
      using b [OF that(2)] that(1) by auto
    show ?thesis using False a b c by blast
  qed
qed

lemma example_mkdtemp:
  "mkdtemp example_env ''pyovpn_patch_'' example_fs = Inr (example_workspace, put example_workspace Dir example_fs)"
  by code_simp

theorem workspace_released_witness:
  "\<not> exists (files (snd (patch example_env example_fs))) example_workspace
   \<and> \<not> exists (files (snd (patch interrupted_env example_fs))) example_workspace
   \<and> fst (patch interrupted_env example_fs) = Some KeyboardInterrupt
   \<and> is_dir (files (snd (patch debug_env example_fs))) example_workspace
   \<and> lookup (files (snd (patch debug_env example_fs))) (new_py example_workspace)
       = Some (File FacadeSrc)
   \<and> lookup (files (snd (patch debug_env example_fs))) (new_pyc example_workspace)
       = Some (File (Pyc orig_module))"
proof -
  let ?w2 = "\<lparr>files = put example_workspace Dir example_fs, log = []\<rparr>"
  have g: "glob EGG_DIR EGG_PATTERN example_fs = live_egg # []" by (simp add: example_glob)
  have f: "is_file example_fs live_egg" by code_simp
  have m1: "mkdtemp interrupted_env ''pyovpn_patch_'' example_fs
              = Inr (example_workspace, put example_workspace Dir example_fs)" by code_simp
  have m2: "mkdtemp debug_env ''pyovpn_patch_'' example_fs
              = Inr (example_workspace, put example_workspace Dir example_fs)" by code_simp
  have i: "fst (patch interrupted_env example_fs) = Some KeyboardInterrupt" by code_simp
  have l1: "lookup (files (snd (run_steps (patch_steps debug_env live_egg example_workspace) ?w2)))
              (new_py example_workspace) = Some (File FacadeSrc)" by code_simp
  have l2: "lookup (files (snd (run_steps (patch_steps debug_env live_egg example_workspace) ?w2)))
              (new_pyc example_workspace) = Some (File (Pyc orig_module))" by code_simp
  have dbg: "DEBUG_MODE debug_env" by (simp add: debug_env_def)
  have "\<not> exists (files (snd (patch example_env example_fs))) example_workspace"
    using workspace_released [OF prod.collapse [symmetric] g f example_mkdtemp]
    by (simp add: example_env_def)
  moreover have "\<not> exists (files (snd (patch interrupted_env example_fs))) example_workspace"
    using workspace_released [OF prod.collapse [symmetric] g f m1]
    by (simp add: example_env_def interrupted_env_def)
  moreover have "is_dir (files (snd (patch debug_env example_fs))) example_workspace"
    using workspace_released [OF prod.collapse [symmetric] g f m2]
    by (simp add: example_env_def debug_env_def)
  moreover have "files (snd (patch debug_env example_fs))
      = files (snd (run_steps (patch_steps debug_env live_egg example_workspace) ?w2))"
    using workspace_released [OF prod.collapse [symmetric] g f m2, THEN conjunct2, THEN conjunct2] dbg
    by simp
  ultimately show ?thesis using i l1 l2 by simp
qed

lemma take5_traces:
  "\<exists>ms. log (snd (run_steps (take 5 (patch_steps env egg t)) w)) = log w @ ms \<and>
     traces (take 5 (patch_traces env egg t))
       (fst (run_steps (take 5 (patch_steps env egg t)) w) = Continue) ms"
  apply (rule run_steps_traces)
  apply (simp add: patch_steps_def patch_traces_def logs_as_action logs_as_tell logs_as_unzip)
  done

lemma drop6_traces:
  "\<exists>ms. log (snd (run_steps (drop 6 (patch_steps env egg t)) w)) = log w @ ms \<and>
     traces (drop 6 (patch_traces env egg t))
       (fst (run_steps (drop 6 (patch_steps env egg t)) w) = Continue) ms"
  apply (rule run_steps_traces)
  apply (simp add: patch_steps_def patch_traces_def logs_as_action logs_as_tell
      logs_as_require_exists logs_as_run_compiler logs_as_remove_source logs_as_backup
      logs_as_deploy)
  done

lemma take5_log:
  "traces (take 5 (patch_traces env egg t)) cont ms \<Longrightarrow>
     (l, ExpectedNotFound p) \<notin> set ms \<and>
     (cont \<longrightarrow> ms = [(DEBUG, CopiedEgg (dest_egg t egg)), (DEBUG, ExtractedEgg (extract_dir t))])"
  by (auto simp: patch_traces_def)

lemma drop6_log:
  "traces (drop 6 (patch_traces env egg t)) cont ms \<Longrightarrow> (l, ExpectedNotFound p) \<notin> set ms"
  by (auto simp: patch_traces_def)

lemma patch_steps_split6:
  "patch_steps env egg t =
     take 5 (patch_steps env egg t) @
     require_exists (old_pyc t) (ExpectedNotFound (old_pyc t)) # drop 6 (patch_steps env egg t)"
  by (simp add: patch_steps_def)

text \<open>
  From a state in which the extracted tree has no \<^verbatim>\<open>uprop.pyc\<close>, everything from the
  rename on comes down to the one error line.
\<close>

lemma missing_module_returns:
  assumes "\<not> exists (files w) (old_pyc t)"
  shows "run_steps (drop 5 (patch_steps env egg t)) w
           = (Return, say ERROR (ExpectedNotFound (old_pyc t)) w)"
  using assms by (simp add: patch_steps_def require_exists_def)

lemma missing_module_reported:
  assumes "run_steps (patch_steps env egg t) w2 = (sg, w3)"
    and "(l, ExpectedNotFound p) \<in> set (log w3)"
    and "set (log w2) \<subseteq> {(INFO, StartingPatchWorkflow), (WARNING, MultipleEggFiles gs),
          (DEBUG, CreatedTempDir t)}"
  shows "sg = Return \<and> l = ERROR \<and> p = old_pyc t
       \<and> log w3 = log w2 @ [(DEBUG, CopiedEgg (dest_egg t egg)), (DEBUG, ExtractedEgg (extract_dir t)),
                             (ERROR, ExpectedNotFound (old_pyc t))]
       \<and> same_except (strict_prefix t) (files w2) (files w3)"
proof -
  let ?ps = "patch_steps env egg t"
  obtain s5 w5 where r5: "run_steps (take 5 ?ps) w2 = (s5, w5)" by (cases "run_steps (take 5 ?ps) w2")
  from take5_traces [of env egg t w2] r5 obtain m5 where
    m5: "log w5 = log w2 @ m5" "traces (take 5 (patch_traces env egg t)) (s5 = Continue) m5" by auto
  have c5: "s5 = Continue"
  proof (rule ccontr)
    assume "s5 \<noteq> Continue"
    then have "run_steps ?ps w2 = (s5, w5)" using stopped_early [of 5 ?ps w2] r5 by simp
    then have "w3 = w5" using assms(1) by simp
    then show False using assms(2,3) m5 take5_log [OF m5(2)] by auto
  qed
  have whole: "run_steps ?ps w2 =
      run_steps (require_exists (old_pyc t) (ExpectedNotFound (old_pyc t)) # drop 6 ?ps) w5"
    using r5 c5 by (subst patch_steps_split6) (simp only: run_steps_append, simp)
  have ne: "\<not> exists (files w5) (old_pyc t)"
  proof
    assume e: "exists (files w5) (old_pyc t)"
    then have "run_steps ?ps w2 = run_steps (drop 6 ?ps) w5"
      using whole by (simp add: require_exists_def)
    then have r: "run_steps (drop 6 ?ps) w5 = (sg, w3)" using assms(1) by simp
    from drop6_traces [of env egg t w5] r obtain m where
      "log w3 = log w5 @ m" "traces (drop 6 (patch_traces env egg t)) (sg = Continue) m" by auto
    then show False using assms(2,3) m5 take5_log [OF m5(2)] drop6_log by auto
  qed
  then have "run_steps ?ps w2 = (Return, say ERROR (ExpectedNotFound (old_pyc t)) w5)"
    using whole by (simp add: require_exists_def)
  then have sg: "sg = Return" and w3: "w3 = say ERROR (ExpectedNotFound (old_pyc t)) w5"
    using assms(1) by auto
  have log3: "log w3 = log w2 @ [(DEBUG, CopiedEgg (dest_egg t egg)),
       (DEBUG, ExtractedEgg (extract_dir t)), (ERROR, ExpectedNotFound (old_pyc t))]"
    using w3 m5 take5_log [OF m5(2)] c5 by (simp add: say_def)
  have "(l, ExpectedNotFound p) \<in> set [(DEBUG, CopiedEgg (dest_egg t egg)),
       (DEBUG, ExtractedEgg (extract_dir t)), (ERROR, ExpectedNotFound (old_pyc t))]"
    using assms(2,3) log3 by auto
  then have lp: "l = ERROR" "p = old_pyc t" by auto
  have "evolves env t egg w2 w3" using patch_steps_evolves [of env t egg w2] assms(1) by simp
  moreover have "\<not> backup_done (log w3)" "(DEBUG, Deployed egg) \<notin> set (log w3)"
    "(DEBUG, BackedUp (backup_path env egg)) \<notin> set (log w3)"
    unfolding log3 using assms(3) by (auto simp: backup_done_def list_ex_iff)
  ultimately have "same_except (strict_prefix t) (files w2) (files w3)"
    by (simp add: evolves_def same_except_def allowed_def)
  then show ?thesis using sg lp log3 by simp
qed

text \<open>
  Claim C8. From any state whose extracted tree has nothing at \<^verbatim>\<open>pyovpn/lic/uprop.pyc\<close>,
  the rest of the \<^verbatim>\<open>try\<close> block (everything from the rename on) returns at once,
  adding the error line and changing no file. And a run whose log has that error line
  ended by that return: no exception escapes, the log has no record of a written module
  source, of a compiler run, of a backup or of a deploy, and every path outside the
  temporary workspace holds what it held before the run.
\<close>

theorem missing_module_aborts:
  assumes "patch env fs = (unc, w)" and "(l, ExpectedNotFound p) \<in> set (log w)"
  shows "(\<not> exists (files w0) (old_pyc t0) \<longrightarrow>
            run_steps (drop 5 (patch_steps env egg0 t0)) w0
              = (Return, say ERROR (ExpectedNotFound (old_pyc t0)) w0))
       \<and> unc = None \<and> l = ERROR
       \<and> (\<forall>l' q. (l', WroteNew q) \<notin> set (log w))
       \<and> (\<forall>l'. (l', Compiled) \<notin> set (log w) \<and> (l', CompilationFailed) \<notin> set (log w))
       \<and> \<not> backup_done (log w)
       \<and> (\<forall>l' q. (l', Deployed q) \<notin> set (log w))
       \<and> (\<forall>q. (\<forall>t fs1. mkdtemp env ''pyovpn_patch_'' fs = Inr (t, fs1) \<longrightarrow> \<not> prefix t q)
              \<longrightarrow> lookup (files w) q = lookup fs q)"
  using assms(1)
proof (cases rule: patch_cases)
  case no_egg
  then show ?thesis using assms(2) by simp
next
  case (not_file egg es)
  then show ?thesis using assms(2) by auto
next
  case (no_temp egg es x)
  then show ?thesis using assms(2) by auto
next
  case (run egg es t fs1 w2 sg w3 w4)
  from handlers_effect(2) [OF run(7)] obtain hs where
    hs: "log w4 = log w3 @ hs" "\<forall>r \<in> set hs. fst r = ERROR \<and> \<not> is_progress (snd r)"
        "(\<forall>e. sg \<noteq> Raise e) \<longrightarrow> hs = []" by blast
  from finally_effect(1) [of env t w4] obtain fl where
    fl: "log w = log w4 @ fl" "set fl \<subseteq> {(DEBUG, CleanedUp t)}" using run(8) by blast
  have hs_enf: "(l, ExpectedNotFound p) \<notin> set hs"
    using run(7) hs(1) by (auto simp: handlers_def say_def split: signal.splits if_splits)
  have in3: "(l, ExpectedNotFound p) \<in> set (log w3)"
    using assms(2) fl hs(1) hs_enf by auto
  from missing_module_reported [OF run(6) in3 run(5)]
  have sg: "sg = Return" and l: "l = ERROR"
    and log3: "log w3 = log w2 @ [(DEBUG, CopiedEgg (dest_egg t egg)),
          (DEBUG, ExtractedEgg (extract_dir t)), (ERROR, ExpectedNotFound (old_pyc t))]"
    by auto
  have unc: "unc = None" using run(7) sg by (simp add: handlers_def)
  have lw: "log w = log w2 @ [(DEBUG, CopiedEgg (dest_egg t egg)),
          (DEBUG, ExtractedEgg (extract_dir t)), (ERROR, ExpectedNotFound (old_pyc t))] @ fl"
    using fl hs sg log3 by simp
  have a: "\<forall>l' q. (l', WroteNew q) \<notin> set (log w)"
    and b: "\<forall>l'. (l', Compiled) \<notin> set (log w) \<and> (l', CompilationFailed) \<notin> set (log w)"
    and d: "\<forall>l' q. (l', Deployed q) \<notin> set (log w)"
    unfolding lw using run(5) fl(2) by auto
  have c: "\<not> backup_done (log w)"
    unfolding lw using run(5) fl(2) by (auto simp: backup_done_def list_ex_iff)
  have F: "same_except (\<lambda>p. p = t \<or> allowed env t egg (log w) p) fs (files w)"
    using run_summary(2) [OF run(3,4,6,7,8)] .
  have e: "\<forall>q. (\<forall>t fs1. mkdtemp env ''pyovpn_patch_'' fs = Inr (t, fs1) \<longrightarrow> \<not> prefix t q)
              \<longrightarrow> lookup (files w) q = lookup fs q"
  proof (intro allI impI)
    fix q assume "\<forall>t fs1. mkdtemp env ''pyovpn_patch_'' fs = Inr (t, fs1) \<longrightarrow> \<not> prefix t q"
    then have "\<not> prefix t q" using run(3) by blast
    then have "\<not> (q = t \<or> allowed env t egg (log w) q)"
      using c d by (auto simp: allowed_def backup_done_def list_ex_iff)
    then show "lookup (files w) q = lookup fs q" using F by (simp add: same_except_def)
  qed
  show ?thesis using missing_module_returns [of w0 t0 env egg0] unc l a b c d e by blast
qed

lemma modless_run:
  "patch example_env modless_fs =
     (None,
      \<lparr>files = modless_fs,
       log = [(INFO, StartingPatchWorkflow),
              (DEBUG, CopiedEgg [''tmp'', ''pyovpn_patch_a1b2c3d4'', ''pyovpn-1.2.3.egg'']),
              (DEBUG, ExtractedEgg [''tmp'', ''pyovpn_patch_a1b2c3d4'', ''extracted'']),
              (ERROR, ExpectedNotFound [''tmp'', ''pyovpn_patch_a1b2c3d4'', ''extracted'',
                                        ''pyovpn'', ''lic'', ''uprop.pyc'']),
              (DEBUG, CleanedUp [''tmp'', ''pyovpn_patch_a1b2c3d4''])]\<rparr>)"
  by code_simp

theorem missing_module_aborts_witness:
  "fst (patch example_env modless_fs) = None
   \<and> \<not> backup_done (log (snd (patch example_env modless_fs)))
   \<and> lookup (files (snd (patch example_env modless_fs))) live_egg = lookup modless_fs live_egg
   \<and> run_steps (drop 5 (patch_steps example_env live_egg example_workspace))
        \<lparr>files = modless_fs, log = []\<rparr>
       = (Return, say ERROR (ExpectedNotFound (old_pyc example_workspace))
                    \<lparr>files = modless_fs, log = []\<rparr>)"
proof -
  have m: "(ERROR, ExpectedNotFound [''tmp'', ''pyovpn_patch_a1b2c3d4'', ''extracted'',
              ''pyovpn'', ''lic'', ''uprop.pyc''])
            \<in> set (log \<lparr>files = modless_fs,
       log = [(INFO, StartingPatchWorkflow),
              (DEBUG, CopiedEgg [''tmp'', ''pyovpn_patch_a1b2c3d4'', ''pyovpn-1.2.3.egg'']),
              (DEBUG, ExtractedEgg [''tmp'', ''pyovpn_patch_a1b2c3d4'', ''extracted'']),
              (ERROR, ExpectedNotFound [''tmp'', ''pyovpn_patch_a1b2c3d4'', ''extracted'',
                                        ''pyovpn'', ''lic'', ''uprop.pyc'']),
              (DEBUG, CleanedUp [''tmp'', ''pyovpn_patch_a1b2c3d4''])]\<rparr>)"
    by simp
  have ne: "\<not> exists (files \<lparr>files = modless_fs, log = []\<rparr>) (old_pyc example_workspace)"
    by code_simp
  show ?thesis
    using missing_module_aborts [OF modless_run m,
        of "\<lparr>files = modless_fs, log = []\<rparr>" example_workspace live_egg] ne
    by (simp add: modless_run backup_done_def)
qed

lemma take15_traces:
  "\<exists>ms. log (snd (run_steps (take 15 (patch_steps env egg t)) w)) = log w @ ms \<and>
     traces (take 15 (patch_traces env egg t))
       (fst (run_steps (take 15 (patch_steps env egg t)) w) = Continue) ms"
  apply (rule run_steps_traces)
  apply (simp add: patch_steps_def patch_traces_def logs_as_action logs_as_tell logs_as_unzip
      logs_as_require_exists logs_as_run_compiler logs_as_remove_source)
  done

lemma take15_log:
  "traces (take 15 (patch_traces env egg t)) cont ms \<Longrightarrow>
     \<not> backup_done ms \<and> (\<forall>l p. (l, Deployed p) \<notin> set ms) \<and> (\<forall>l p. (l, BackedUp p) \<notin> set ms)"
  by (auto simp: patch_traces_def backup_done_def)

lemma take15_evolves:
  "evolves env t egg w (snd (run_steps (take 15 (patch_steps env egg t)) w))"
proof -
  have c1: "\<And>fs fs'. copy2 egg (dest_egg t egg) fs = Inr fs' \<Longrightarrow> same_except (strict_prefix t) fs fs'"
    by (rule copy2_frame) (auto simp: dest_egg_def strict_prefix_def)
  have c2: "\<And>fs fs'. mkdir (extract_dir t) fs = Inr fs' \<Longrightarrow> same_except (strict_prefix t) fs fs'"
    by (rule mkdir_frame) auto
  have c3: "\<And>fs fs'. rename (old_pyc t) (new_pyc t) fs = Inr fs' \<Longrightarrow> same_except (strict_prefix t) fs fs'"
  proof -
    fix fs fs' assume r: "rename (old_pyc t) (new_pyc t) fs = Inr fs'"
    show "same_except (strict_prefix t) fs fs'"
    proof (rule rename_frame [OF r])
      fix p assume "prefix (old_pyc t) p"
      then show "strict_prefix t p" using below_workspace [of t "old_pyc t"] by simp
    next
      fix p assume "prefix (new_pyc t) p"
      then show "strict_prefix t p" using below_workspace [of t "new_pyc t"] by simp
    qed
  qed
  have c4: "\<And>fs fs'. write_file (new_py t) FacadeSrc fs = Inr fs' \<Longrightarrow> same_except (strict_prefix t) fs fs'"
    by (rule write_file_frame) auto
  have c5: "\<And>fs fs'. repack (extract_dir t) (dest_egg t egg) fs = Inr fs' \<Longrightarrow> same_except (strict_prefix t) fs fs'"
    by (rule repack_frame) auto
  show ?thesis
    apply (rule run_steps_evolves)
    apply (simp add: patch_steps_def del: run_steps.simps)
    apply (intro conjI allI)
    apply (simp_all only: action_evolves [OF c1] action_evolves [OF c2] action_evolves [OF c3]
        action_evolves [OF c4] action_evolves [OF c5] tell_evolves
        unzip_evolves [OF prefix_workspace(2)]
        require_exists_evolves run_compiler_evolves [OF prefix_workspace(7)]
        run_compiler_evolves [OF prefix_workspace(4)]
        remove_source_evolves [OF prefix_workspace(6)])
    done
qed

lemma patch_steps_split15:
  "patch_steps env egg t =
     take 15 (patch_steps env egg t) @
     backup env egg # [deploy env (dest_egg t egg) egg, tell DEBUG (Deployed egg)]"
  by (simp add: patch_steps_def)

lemma deploy_frame:
  "same_except (\<lambda>p. p = egg \<or> p = egg @ [last egg]) (files w)
     (files (snd (run_steps [deploy env (dest_egg t egg) egg, tell DEBUG (Deployed egg)] w)))"
proof (cases "fault env AtDeploy")
  case (Some e)
  then show ?thesis
    by (auto simp: deploy_def same_except_def lookup_put split: option.splits)
next
  case None
  show ?thesis
  proof (cases "copy2 (dest_egg t egg) egg (files w)")
    case (Inl e)
    then show ?thesis using None by (simp add: deploy_def same_except_refl)
  next
    case (Inr fs')
    then have "same_except (\<lambda>p. p = egg \<or> p = egg @ [last (dest_egg t egg)]) (files w) fs'"
      by (rule copy2_frame) auto
    then have "same_except (\<lambda>p. p = egg \<or> p = egg @ [last egg]) (files w) fs'"
      by (simp add: dest_egg_def)
    then show ?thesis using None Inr by (simp add: deploy_def tell_def say_def)
  qed
qed

lemma deploy_log:
  "\<exists>ms. log (snd (run_steps [deploy env src egg, tell DEBUG (Deployed egg)] w)) = log w @ ms
      \<and> set ms \<subseteq> {(DEBUG, Deployed egg)}"
  by (auto simp: deploy_def tell_def say_def split: option.splits sum.splits)

lemma backup_not_in_workspace:
  assumes "egg \<in> set (glob EGG_DIR EGG_PATTERN fs)"
  shows "\<not> prefix (g @ [''pyovpn_patch_'' @ n]) (backup_path env egg)"
proof
  assume p: "prefix (g @ [''pyovpn_patch_'' @ n]) (backup_path env egg)"
  from egg_shape [OF assms] obtain r where e: "egg = EGG_DIR @ [''pyovpn-'' @ r]" by blast
  have "''pyovpn_patch_'' @ n \<in> set (backup_path env egg)" using set_mono_prefix [OF p] by auto
  then show False using e by (auto simp: backup_path_def BACKUP_DIR_def)
qed

lemma backup_child_not_in_workspace:
  assumes "egg \<in> set (glob EGG_DIR EGG_PATTERN fs)"
  shows "\<not> prefix (g @ [''pyovpn_patch_'' @ n]) (backup_path env egg @ [last egg])"
proof
  assume p: "prefix (g @ [''pyovpn_patch_'' @ n]) (backup_path env egg @ [last egg])"
  from egg_shape [OF assms] obtain r where e: "egg = EGG_DIR @ [''pyovpn-'' @ r]" by blast
  have "''pyovpn_patch_'' @ n \<in> set (backup_path env egg @ [last egg])"
    using set_mono_prefix [OF p] by auto
  then show False using e by (auto simp: backup_path_def BACKUP_DIR_def)
qed

lemma timestamp_format:
  "strftime dt TIMESTAMP_FORMAT =
     zpad 4 (year dt) @ zpad 2 (month dt) @ zpad 2 (day dt) @ ''-'' @
     zpad 2 (hour dt) @ zpad 2 (minute dt) @ zpad 2 (second dt)"
  by (simp add: TIMESTAMP_FORMAT_def directive_def)

lemma zpad_2: "zpad 2 n = [digit_char (n div 10), digit_char n]"
proof -
  have "zpad (Suc (Suc 0)) n = [digit_char (n div 10), digit_char n]" by simp
  then show ?thesis by (simp only: numeral_2_eq_2)
qed

lemma zpad_4:
  "zpad 4 n = [digit_char (n div 1000), digit_char (n div 100), digit_char (n div 10), digit_char n]"
proof -
  have "zpad (Suc (Suc (Suc (Suc 0)))) n
          = [digit_char (n div 1000), digit_char (n div 100), digit_char (n div 10), digit_char n]"
    by (simp add: div_mult2_eq [symmetric])
  moreover have "(4::nat) = Suc (Suc (Suc (Suc 0)))" by simp
  ultimately show ?thesis by (simp only:)
qed

lemma backup_cases:
  assumes "backup env egg w = (sg, w')"
  shows "(sg = Continue \<and> copy2 egg (backup_path env egg) (files w) = Inr (files w')
            \<and> log w' = log w @ [(DEBUG, BackedUp (backup_path env egg))])
       \<or> (files w' = files w \<and> (\<exists>ms. log w' = log w @ ms \<and> set ms \<subseteq> {(WARNING, NoLiveEggToBackUp)}))"
  using assms
  by (auto simp: backup_def say_def split: option.splits sum.splits if_splits)

lemma copy2_result:
  assumes "copy2 src dst fs = Inr fs'"
  shows "\<exists>c. lookup fs src = Some (File c)
           \<and> fs' = put (if is_dir fs dst then dst @ [last src] else dst) (File c) fs"
  using assms
  by (auto simp: copy2_def write_file_def Let_def split: option.splits node.splits if_splits)

text \<open>
  The state in which the backup copy is made, and what the copy leaves: the archive's
  content at the backup path, or inside it under the archive's name when the backup path
  was a directory.
\<close>

lemma backed_up_file:
  assumes run: "run_steps (patch_steps env egg t) w2 = (sg, w3)"
    and logged: "(l, BackedUp p) \<in> set (log w3)"
    and pre: "set (log w2) \<subseteq> {(INFO, StartingPatchWorkflow), (WARNING, MultipleEggFiles gs),
          (DEBUG, CreatedTempDir t)}"
    and mem: "egg \<in> set (glob EGG_DIR EGG_PATTERN fs)"
    and t: "t = g @ [''pyovpn_patch_'' @ n]"
  shows "\<exists>c. lookup (files w2) egg = Some (File c)
           \<and> lookup (files w3)
               (if is_dir (files w2) (backup_path env egg)
                then backup_path env egg @ [last egg] else backup_path env egg) = Some (File c)
           \<and> (is_dir (files w2) (backup_path env egg) \<longrightarrow> is_dir (files w3) (backup_path env egg))"
proof -
  let ?ps = "patch_steps env egg t" and ?bp = "backup_path env egg"
  let ?rest = "[deploy env (dest_egg t egg) egg, tell DEBUG (Deployed egg)]"
  let ?at = "if is_dir (files w2) ?bp then ?bp @ [last egg] else ?bp"
  obtain s15 w15 where r15: "run_steps (take 15 ?ps) w2 = (s15, w15)"
    by (cases "run_steps (take 15 ?ps) w2")
  from take15_traces [of env egg t w2] r15 obtain m15 where
    m15: "log w15 = log w2 @ m15" "traces (take 15 (patch_traces env egg t)) (s15 = Continue) m15"
    by auto
  note l15 = take15_log [OF m15(2)]
  have no15: "\<forall>l p. (l, BackedUp p) \<notin> set (log w15)" using m15(1) l15 pre by auto
  have c15: "s15 = Continue"
  proof (rule ccontr)
    assume "s15 \<noteq> Continue"
    then have "run_steps ?ps w2 = (s15, w15)" using stopped_early [of 15 ?ps w2] r15 by simp
    then show False using run logged no15 by auto
  qed
  obtain sb wb where b: "backup env egg w15 = (sb, wb)" by (cases "backup env egg w15")
  have whole: "run_steps ?ps w2 = (if sb = Continue then run_steps ?rest wb else (sb, wb))"
    using r15 c15 b by (subst patch_steps_split15) (simp only: run_steps_append, simp)
  from deploy_log [of env "dest_egg t egg" egg wb] obtain md where
    md: "log (snd (run_steps ?rest wb)) = log wb @ md" "set md \<subseteq> {(DEBUG, Deployed egg)}" by blast
  have w3_log: "\<exists>ms. log w3 = log wb @ ms \<and> set ms \<subseteq> {(DEBUG, Deployed egg)}"
  proof (cases "sb = Continue")
    case True
    then have "run_steps ?rest wb = (sg, w3)" using whole run by (simp del: run_steps.simps)
    then have "w3 = snd (run_steps ?rest wb)" by (simp del: run_steps.simps)
    then show ?thesis using md by blast
  next
    case False
    then have "w3 = wb" using whole run by simp
    then show ?thesis by simp
  qed
  have good: "sb = Continue \<and> copy2 egg ?bp (files w15) = Inr (files wb)"
  proof (rule ccontr)
    assume "\<not> (sb = Continue \<and> copy2 egg ?bp (files w15) = Inr (files wb))"
    then have "\<exists>ms. log wb = log w15 @ ms \<and> set ms \<subseteq> {(WARNING, NoLiveEggToBackUp)}"
      using backup_cases [OF b] by auto
    then show False using w3_log logged no15 by auto
  qed
  have ev: "evolves env t egg w2 w15" using take15_evolves [of env t egg w2] r15 by simp
  have clean15: "\<not> backup_done (log w15)" "(DEBUG, Deployed egg) \<notin> set (log w15)"
    "(DEBUG, BackedUp ?bp) \<notin> set (log w15)"
    using m15(1) l15 pre by (auto simp: backup_done_def list_ex_iff)
  have same15: "lookup (files w15) q = lookup (files w2) q" if "\<not> strict_prefix t q" for q
    using ev that clean15 by (simp add: evolves_def same_except_def allowed_def)
  have nt_egg: "\<not> strict_prefix t egg" using egg_not_in_workspace [OF mem, of g n] t by auto
  have "\<not> prefix t ?bp" unfolding t by (rule backup_not_in_workspace [OF mem])
  then have nt_bp: "\<not> strict_prefix t ?bp" by (simp add: strict_prefix_def)
  have "\<not> prefix t (?bp @ [last egg])" unfolding t by (rule backup_child_not_in_workspace [OF mem])
  then have nt_in: "\<not> strict_prefix t (?bp @ [last egg])" by (simp add: strict_prefix_def)
  have d15: "is_dir (files w15) ?bp = is_dir (files w2) ?bp"
    using same15 [OF nt_bp] by (simp add: is_dir_def)
  from copy2_result [OF conjunct2 [OF good]] obtain c where
    c: "lookup (files w15) egg = Some (File c)" "files wb = put ?at (File c) (files w15)"
    using d15 by auto
  have at_ne: "?at \<noteq> []" by (simp add: backup_path_def)
  have atb: "lookup (files wb) ?at = Some (File c)" using c(2) at_ne by (simp add: lookup_put)
  have "run_steps ?rest wb = (sg, w3)" using whole good run by (simp del: run_steps.simps)
  then have w3: "w3 = snd (run_steps ?rest wb)" by (simp del: run_steps.simps)
  from egg_shape [OF mem] obtain r where e: "egg = EGG_DIR @ [''pyovpn-'' @ r]" by blast
  have ne: "?bp \<noteq> egg" "?bp \<noteq> egg @ [last egg]" "?bp @ [last egg] \<noteq> egg"
    "?bp @ [last egg] \<noteq> egg @ [last egg]"
    using e by (auto simp: backup_path_def BACKUP_DIR_def EGG_DIR_def)
  have fr: "lookup (files w3) q = lookup (files wb) q" if "q \<noteq> egg" "q \<noteq> egg @ [last egg]" for q
    using deploy_frame [of egg wb env t] w3 that by (simp add: same_except_def)
  have "lookup (files w3) ?at = lookup (files wb) ?at" using fr ne by simp
  then have landed: "lookup (files w3) ?at = Some (File c)" using atb by simp
  have stays: "is_dir (files w3) ?bp" if d: "is_dir (files w2) ?bp"
  proof -
    have "lookup (files wb) ?bp = lookup (files w15) ?bp"
      using c(2) d by (simp add: lookup_put)
    then show ?thesis using fr [OF ne(1,2)] d d15 by (simp add: is_dir_def)
  qed
  show ?thesis using landed c(1) same15 [OF nt_egg] stays by auto
qed

text \<open>
  Claim C9, as stated, fails when a directory is already at the backup path:
  \<^verbatim>\<open>shutil.copy2\<close> then copies into that directory. The run logs the backup path with
  the timestamped name, but that path is still the directory; the backup file created is
  inside it and is named \<^verbatim>\<open>pyovpn-1.2.3.egg\<close>.
\<close>

theorem backup_lands_inside_directory:
  "(DEBUG, BackedUp [''tmp'', ''pyovpn-1.2.3.egg.bak-20240305-100722''])
      \<in> set (log (snd (patch example_env occupied_fs)))
   \<and> (DEBUG, Deployed live_egg) \<in> set (log (snd (patch example_env occupied_fs)))
   \<and> lookup occupied_fs [''tmp'', ''pyovpn-1.2.3.egg.bak-20240305-100722''] = Some Dir
   \<and> lookup occupied_fs [''tmp'', ''pyovpn-1.2.3.egg.bak-20240305-100722'', ''pyovpn-1.2.3.egg'']
       = None
   \<and> lookup (files (snd (patch example_env occupied_fs)))
        [''tmp'', ''pyovpn-1.2.3.egg.bak-20240305-100722''] = Some Dir
   \<and> lookup (files (snd (patch example_env occupied_fs)))
        [''tmp'', ''pyovpn-1.2.3.egg.bak-20240305-100722'', ''pyovpn-1.2.3.egg'']
       = Some (File example_egg)"
  by code_simp

text \<open>
  Claim C9, amended. When a run logs that it backed the archive up to \<open>p\<close>, then \<open>p\<close> is the
  backup directory followed by one name: the name of the live archive, \<^verbatim>\<open>.bak-\<close>, and the
  UTC time of the backup as four digits of year, two of month, two of day, a hyphen, and
  two digits each of hour, minute and second. Provided no directory was at \<open>p\<close> before the
  run, the backup file is the file at \<open>p\<close>: after the run it holds what the live archive
  held before it. When a directory was at \<open>p\<close>, it still is, and the backup file is inside
  it under the archive's own name. At 2024-03-05 10:07:22 and for \<^verbatim>\<open>pyovpn-1.2.3.egg\<close>
  the name is \<^verbatim>\<open>pyovpn-1.2.3.egg.bak-20240305-100722\<close>.
\<close>

theorem backup_file_name:
  assumes "patch env fs = (unc, w)" and "(l, BackedUp p) \<in> set (log w)"
    and "glob EGG_DIR EGG_PATTERN fs = egg # es"
  shows "p = BACKUP_DIR @
               [last egg @ ''.bak-'' @
                zpad 4 (year (utc_now env)) @ zpad 2 (month (utc_now env)) @
                zpad 2 (day (utc_now env)) @ ''-'' @ zpad 2 (hour (utc_now env)) @
                zpad 2 (minute (utc_now env)) @ zpad 2 (second (utc_now env))]
       \<and> (\<not> is_dir fs p \<longrightarrow> (\<exists>c. lookup fs egg = Some (File c) \<and> lookup (files w) p = Some (File c)))
       \<and> (is_dir fs p \<longrightarrow>
            is_dir (files w) p
            \<and> (\<exists>c. lookup fs egg = Some (File c)
                  \<and> lookup (files w) (p @ [last egg]) = Some (File c)))
       \<and> (utc_now env = \<lparr>year = 2024, month = 3, day = 5, hour = 10, minute = 7, second = 22\<rparr>
            \<and> last egg = ''pyovpn-1.2.3.egg''
          \<longrightarrow> p = [''tmp'', ''pyovpn-1.2.3.egg.bak-20240305-100722''])"
  using assms(1)
proof (cases rule: patch_cases)
  case no_egg
  then show ?thesis using assms(2) by simp
next
  case (not_file egg' es')
  then show ?thesis using assms(2) by auto
next
  case (no_temp egg' es' x)
  then show ?thesis using assms(2) by auto
next
  case (run egg' es' t fs1 w2 sg w3 w4)
  have eq: "egg' = egg" using run(1) assms(3) by simp
  note r = run [unfolded eq]
  let ?bp = "backup_path env egg"
  have mem: "egg \<in> set (glob EGG_DIR EGG_PATTERN fs)" using assms(3) by simp
  from mkdtemp_shape [OF r(3)] obtain n where
    t: "t = gettempdir env @ [''pyovpn_patch_'' @ n]" and fs1: "fs1 = put t Dir fs" by blast
  from handlers_effect(2) [OF r(7)] obtain hs where
    hs: "log w4 = log w3 @ hs" "\<forall>r \<in> set hs. fst r = ERROR \<and> \<not> is_progress (snd r)" by blast
  from finally_effect(1) [of env t w4] obtain fl where
    fl: "log w = log w4 @ fl" "set fl \<subseteq> {(DEBUG, CleanedUp t)}" using r(8) by blast
  have "(l, BackedUp p) \<notin> set hs" using hs(2) by (auto simp: is_progress_def)
  then have in3: "(l, BackedUp p) \<in> set (log w3)" using assms(2) fl hs(1) by auto
  from patch_steps_traces [of env egg t w2] r(6) obtain ms where
    ms: "log w3 = log w2 @ ms" "traces (patch_traces env egg t) (sg = Continue) ms" by auto
  have "(l, BackedUp p) \<in> set ms" using in3 ms(1) r(5) by auto
  then have p: "p = ?bp" using traces_backed_up [OF ms(2)] by blast
  have name: "p = BACKUP_DIR @
               [last egg @ ''.bak-'' @
                zpad 4 (year (utc_now env)) @ zpad 2 (month (utc_now env)) @
                zpad 2 (day (utc_now env)) @ ''-'' @ zpad 2 (hour (utc_now env)) @
                zpad 2 (minute (utc_now env)) @ zpad 2 (second (utc_now env))]"
    unfolding p backup_path_def timestamp_format by simp
  have ex: "p = [''tmp'', ''pyovpn-1.2.3.egg.bak-20240305-100722'']"
    if "utc_now env = \<lparr>year = 2024, month = 3, day = 5, hour = 10, minute = 7, second = 22\<rparr>"
      "last egg = ''pyovpn-1.2.3.egg''"
    unfolding name using that by (simp add: BACKUP_DIR_def zpad_2 zpad_4 digit_char_def)
  have "\<not> prefix t egg" unfolding t by (rule egg_not_in_workspace [OF mem])
  then have e2: "lookup (files w2) egg = lookup fs egg"
    using r(4) fs1 by (auto simp: lookup_put)
  have nbp: "\<not> prefix t ?bp" unfolding t by (rule backup_not_in_workspace [OF mem])
  then have b2: "lookup (files w2) ?bp = lookup fs ?bp"
    using r(4) fs1 by (auto simp: lookup_put)
  then have d2: "is_dir (files w2) ?bp = is_dir fs p" using p by (simp add: is_dir_def)
  have nin: "\<not> prefix t (?bp @ [last egg])"
    unfolding t by (rule backup_child_not_in_workspace [OF mem])
  from backed_up_file [OF r(6) in3 r(5) mem t] obtain c where
    c: "lookup (files w2) egg = Some (File c)"
       "lookup (files w3) (if is_dir (files w2) ?bp then ?bp @ [last egg] else ?bp) = Some (File c)"
       "is_dir (files w2) ?bp \<longrightarrow> is_dir (files w3) ?bp" by blast
  have "files w4 = files w3" using handlers_effect(1) [OF r(7)] .
  moreover have "same_except (prefix t) (files w4) (files w)"
    using finally_effect(2) [of t w4 env] r(8) by simp
  ultimately have fin: "lookup (files w) q = lookup (files w3) q" if "\<not> prefix t q" for q
    using that by (simp add: same_except_def)
  have kept: "\<exists>c. lookup fs egg = Some (File c) \<and> lookup (files w) p = Some (File c)"
    if nd: "\<not> is_dir fs p"
    using c(1,2) e2 d2 nd fin [OF nbp] p by auto
  have inside: "is_dir (files w) p
            \<and> (\<exists>c. lookup fs egg = Some (File c)
                  \<and> lookup (files w) (p @ [last egg]) = Some (File c))"
    if d: "is_dir fs p"
  proof -
    have "lookup (files w) (?bp @ [last egg]) = Some (File c)"
      using c(2) d d2 fin [OF nin] by simp
    moreover have "is_dir (files w) ?bp" using c(3) d d2 fin [OF nbp] by (simp add: is_dir_def)
    ultimately show ?thesis using c(1) e2 p by simp
  qed
  show ?thesis using name kept inside ex by blast
qed

lemma example_backed_up:
  "(DEBUG, BackedUp [''tmp'', ''pyovpn-1.2.3.egg.bak-20240305-100722''])
     \<in> set (log (snd (patch example_env example_fs)))"
  by code_simp

theorem backup_file_name_witness:
  "lookup (files (snd (patch example_env example_fs)))
       [''tmp'', ''pyovpn-1.2.3.egg.bak-20240305-100722'']
     = Some (File example_egg)"
proof -
  have nd: "\<not> is_dir example_fs [''tmp'', ''pyovpn-1.2.3.egg.bak-20240305-100722'']"
    by code_simp
  have e: "lookup example_fs live_egg = Some (File example_egg)" by code_simp
  have g: "glob EGG_DIR EGG_PATTERN example_fs = live_egg # []" by (simp add: example_glob)
  note th = backup_file_name [OF prod.collapse [symmetric] example_backed_up g]
  from th [THEN conjunct2, THEN conjunct1] nd obtain c where
    c: "lookup example_fs live_egg = Some (File c)"
       "lookup (files (snd (patch example_env example_fs)))
          [''tmp'', ''pyovpn-1.2.3.egg.bak-20240305-100722''] = Some (File c)"
    by blast
  from c(1) e have "c = example_egg" by (simp only: option.inject node.inject)
  then show ?thesis using c(2) by (simp only:)
qed

lemma distinct_put: "distinct (map fst fs) \<Longrightarrow> distinct (map fst (put p n fs))"
  by (simp add: put_def distinct_update)

lemma distinct_remove: "distinct (map fst fs) \<Longrightarrow> distinct (map fst (remove p fs))"
  by (simp add: remove_def distinct_delete)

lemma write_file_result:
  "write_file p c fs = Inr fs' \<Longrightarrow> fs' = put p (File c) fs \<and> \<not> is_dir fs p"
  by (auto simp: write_file_def split: if_splits)

lemma mkdir_result: "mkdir p fs = Inr fs' \<Longrightarrow> fs' = put p Dir fs \<and> lookup fs p = None"
  by (auto simp: mkdir_def exists_def split: if_splits)

lemma ensure_dirs_keeps:
  "ensure_dirs base cs fs = Inr fs' \<Longrightarrow>
     distinct (map fst fs) \<longrightarrow> distinct (map fst fs')"
  by (induction cs arbitrary: base fs)
     (auto simp: distinct_put split: option.splits node.splits)

lemma ensure_dirs_files:
  "ensure_dirs base cs fs = Inr fs' \<Longrightarrow> lookup fs p = Some (File c) \<Longrightarrow> lookup fs' p = Some (File c)"
proof (induction cs arbitrary: base fs)
  case Nil
  then show ?case by simp
next
  case (Cons a cs)
  show ?case
  proof (cases "lookup fs (base @ [a])")
    case None
    then have e: "ensure_dirs (base @ [a]) cs (put (base @ [a]) Dir fs) = Inr fs'"
      using Cons.prems(1) by simp
    have "p \<noteq> base @ [a]" using None Cons.prems(2) by auto
    moreover have "p \<noteq> []" using Cons.prems(2) by auto
    ultimately have "lookup (put (base @ [a]) Dir fs) p = Some (File c)"
      using Cons.prems(2) by (simp add: lookup_put)
    then show ?thesis using Cons.IH [OF e] by simp
  next
    case (Some n)
    then show ?thesis using Cons.prems Cons.IH by (cases n) auto
  qed
qed

lemma extract_member_keeps:
  assumes "extract_member dest m fs = Inr fs'" "distinct (map fst fs)"
  shows "distinct (map fst fs')"
proof -
  let ?r = "sanitize (fst m)"
  from assms(1) obtain fs1 where e: "ensure_dirs dest (butlast ?r) fs = Inr fs1"
    and rest: "(case snd m of EDir \<Rightarrow> if is_dir fs1 (dest @ ?r) then Inr fs1 else mkdir (dest @ ?r) fs1
                 | EFile c \<Rightarrow> write_file (dest @ ?r) c fs1) = Inr fs'"
    by (auto simp: extract_member_def Let_def split: sum.splits)
  have d1: "distinct (map fst fs1)" using ensure_dirs_keeps [OF e] assms(2) by simp
  show ?thesis using rest d1
    by (auto simp: distinct_put split: entry.splits if_splits
        dest!: mkdir_result write_file_result)
qed

lemma extractall_keeps:
  "extractall dest ms fs = Inr fs' \<Longrightarrow> distinct (map fst fs) \<Longrightarrow> distinct (map fst fs')"
proof (induction ms arbitrary: fs)
  case Nil
  then show ?case by simp
next
  case (Cons m ms)
  from Cons.prems(1) obtain fs1 where a: "extract_member dest m fs = Inr fs1"
    and b: "extractall dest ms fs1 = Inr fs'"
    by (auto split: sum.splits)
  show ?case using Cons.IH [OF b extract_member_keeps [OF a Cons.prems(2)]] .
qed

lemma extractall_snoc:
  "extractall dest (ms @ [m]) fs =
     (case extractall dest ms fs of Inl e \<Rightarrow> Inl e | Inr fs1 \<Rightarrow> extract_member dest m fs1)"
  by (induction ms arbitrary: fs) (auto split: sum.splits)

text \<open>A member extracted as a file stays as it is while the rest is extracted.\<close>

lemma extract_member_other:
  assumes "extract_member dest m fs = Inr fs'" "lookup fs (dest @ r) = Some (File c)"
    "sanitize (fst m) \<noteq> r"
  shows "lookup fs' (dest @ r) = Some (File c)"
proof -
  let ?r = "sanitize (fst m)"
  from assms(1) obtain fs1 where e: "ensure_dirs dest (butlast ?r) fs = Inr fs1"
    and rest: "(case snd m of EDir \<Rightarrow> if is_dir fs1 (dest @ ?r) then Inr fs1 else mkdir (dest @ ?r) fs1
                 | EFile c \<Rightarrow> write_file (dest @ ?r) c fs1) = Inr fs'"
    by (auto simp: extract_member_def Let_def split: sum.splits)
  have 1: "lookup fs1 (dest @ r) = Some (File c)" using ensure_dirs_files [OF e assms(2)] .
  have ne: "dest @ ?r \<noteq> dest @ r" using assms(3) by simp
  show ?thesis using rest 1 ne
    by (auto simp: lookup_put split: entry.splits if_splits dest!: mkdir_result write_file_result)
qed

lemma extract_member_this:
  assumes "extract_member dest m fs = Inr fs'" "snd m = EFile c" "sanitize (fst m) \<noteq> []"
  shows "lookup fs' (dest @ sanitize (fst m)) = Some (File c)"
proof -
  let ?r = "sanitize (fst m)"
  from assms obtain fs1 where "write_file (dest @ ?r) c fs1 = Inr fs'"
    by (auto simp: extract_member_def Let_def split: sum.splits)
  then show ?thesis using assms(3) by (auto simp: lookup_put dest!: write_file_result)
qed

lemma extractall_lookup:
  "extractall dest z fs = Inr fs' \<Longrightarrow> extracted_as z r = Some (EFile c) \<Longrightarrow> r \<noteq> [] \<Longrightarrow>
     lookup fs' (dest @ r) = Some (File c)"
proof (induction z arbitrary: fs' rule: rev_induct)
  case Nil
  then show ?case by (simp add: extracted_as_def)
next
  case (snoc m ms)
  from snoc.prems(1) obtain fs1 where a: "extractall dest ms fs = Inr fs1"
    and b: "extract_member dest m fs1 = Inr fs'"
    by (auto simp: extractall_snoc split: sum.splits)
  show ?case
  proof (cases "sanitize (fst m) = r")
    case True
    then have "snd m = EFile c" using snoc.prems(2) by (simp add: extracted_as_def)
    then show ?thesis using extract_member_this [OF b] True snoc.prems(3) by simp
  next
    case False
    then have "extracted_as ms r = Some (EFile c)"
      using snoc.prems(2) by (simp add: extracted_as_def)
    from snoc.IH [OF a this snoc.prems(3)] show ?thesis
      using extract_member_other [OF b _ False] by simp
  qed
qed

lemma map_of_rev_distinct: "distinct (map fst xs) \<Longrightarrow> map_of (rev xs) = map_of xs"
  by (rule map_of_inject_set [THEN iffD2]) (simp_all add: distinct_rev rev_map [symmetric])

lemma map_of_strip:
  assumes "r \<noteq> []"
  shows "map_of (map (\<lambda>(q, n). (drop (length d) q, g n)) (filter (\<lambda>(q, n). strict_prefix d q) fs)) r
           = map_option g (map_of fs (d @ r))"
proof (induction fs)
  case Nil
  then show ?case by simp
next
  case (Cons x fs)
  obtain q n where x: "x = (q, n)" by (cases x)
  show ?case
  proof (cases "strict_prefix d q")
    case True
    then obtain r' where q: "q = d @ r'" by (auto simp: strict_prefix_def prefix_def)
    show ?thesis using Cons x True q by simp
  next
    case False
    then have "q \<noteq> d @ r" using assms by (auto simp: strict_prefix_def)
    then show ?thesis using Cons x False by simp
  qed
qed

lemma repack_entries_lookup:
  assumes "distinct (map fst fs)" "r \<noteq> []"
  shows "zip_lookup (repack_entries d fs) r = map_option entry_of (lookup fs (d @ r))"
proof -
  let ?f = "\<lambda>(q, n). (drop (length d) q, entry_of n)"
  have keys: "map fst (repack_entries d fs) = map (drop (length d)) (map fst (rglob d fs))"
    by (simp add: repack_entries_def rglob_def comp_def case_prod_beta)
  have inj: "inj_on (drop (length d)) (set (map fst (rglob d fs)))"
    by (rule inj_onI) (auto simp: rglob_def strict_prefix_def prefix_def)
  have dr: "distinct (map fst (rglob d fs))"
    using assms(1) unfolding rglob_def by (rule distinct_map_filter)
  have dist: "distinct (map fst (repack_entries d fs))"
    unfolding keys by (rule iffD2 [OF distinct_map]) (use dr inj in blast)
  have first: "map_of (repack_entries d fs) r = map_option entry_of (map_of fs (d @ r))"
    unfolding repack_entries_def rglob_def using assms(2) by (rule map_of_strip)
  show ?thesis
    using first assms(2) by (simp add: zip_lookup_def map_of_rev_distinct [OF dist] lookup_def)
qed

lemma unzip_Continue:
  "unzip env a d w = (Continue, w') \<Longrightarrow>
     \<exists>z. open_zip a (files w) = Inr z \<and> extractall d z (files w) = Inr (files w') \<and> log w' = log w"
  by (auto simp: unzip_def action_def split: option.splits sum.splits)

lemma require_exists_Continue:
  "require_exists p m w = (Continue, w') \<Longrightarrow> exists (files w) p \<and> w' = w"
  by (auto simp: require_exists_def split: if_splits)

lemma run_compiler_Continue:
  "run_compiler env src out w = (Continue, w') \<Longrightarrow>
     cc_returncode env = 0 \<and> files w' = compileall env src out (files w)"
  by (auto simp: run_compiler_def Let_def say_def split: option.splits if_splits)

lemma remove_source_Continue:
  "remove_source env p w = (Continue, w') \<Longrightarrow>
     files w' = (if DEBUG_MODE env then files w else remove p (files w))"
  by (auto simp: remove_source_def tell_def say_def action_def unlink_missing_ok_def Let_def
      split: option.splits sum.splits if_splits)

lemma backup_Continue:
  "backup env egg w = (Continue, w') \<Longrightarrow>
     files w' = files w \<or> copy2 egg (backup_path env egg) (files w) = Inr (files w')"
  by (auto simp: backup_def say_def split: option.splits sum.splits if_splits)

lemma deploy_Continue:
  "deploy env src egg w = (Continue, w') \<Longrightarrow> copy2 src egg (files w) = Inr (files w')"
  by (auto simp: deploy_def split: option.splits sum.splits)

text \<open>What each call returned in a run whose steps all continued.\<close>

lemma success_chain:
  assumes "run_steps (patch_steps env egg t) w2 = (Continue, w3)"
  obtains f1 f3 z f4 f7 f9 f14 fb where
    "copy2 egg (dest_egg t egg) (files w2) = Inr f1"
    "mkdir (extract_dir t) f1 = Inr f3"
    "open_zip (dest_egg t egg) f3 = Inr z"
    "extractall (extract_dir t) z f3 = Inr f4"
    "exists f4 (old_pyc t)"
    "rename (old_pyc t) (new_pyc t) f4 = Inr f7"
    "write_file (new_py t) FacadeSrc f7 = Inr f9"
    "cc_returncode env = 0"
    "exists (compileall env (new_py t) (pyc_file t) f9) (pyc_file t)"
    "repack (extract_dir t) (dest_egg t egg)
       (if DEBUG_MODE env then compileall env (new_py t) (pyc_file t) f9
        else remove (new_py t) (compileall env (new_py t) (pyc_file t) f9)) = Inr f14"
    "fb = f14 \<or> copy2 egg (backup_path env egg) f14 = Inr fb"
    "copy2 (dest_egg t egg) egg fb = Inr (files w3)"
proof -
  note E = run_steps_Cons_Continue
  have r0: "run_steps (drop 0 (patch_steps env egg t)) w2 = (Continue, w3)" using assms by simp
  from r0 obtain v1 where s1: "action env AtCopyEgg (copy2 egg (dest_egg t egg)) w2 = (Continue, v1)"
    and r1: "run_steps (drop 1 (patch_steps env egg t)) v1 = (Continue, w3)"
    by (simp only: patch_steps_def drop_0 drop_Suc_Cons numeral_eq_Suc pred_numeral_simps One_nat_def arith_simps) (erule E, simp add: patch_steps_def)
  from r1 obtain v2 where s2: "tell DEBUG (CopiedEgg (dest_egg t egg)) v1 = (Continue, v2)"
    and r2: "run_steps (drop 2 (patch_steps env egg t)) v2 = (Continue, w3)"
    by (simp only: patch_steps_def drop_0 drop_Suc_Cons numeral_eq_Suc pred_numeral_simps One_nat_def arith_simps) (erule E, simp add: patch_steps_def)
  from r2 obtain v3 where s3: "action env AtMkdir (mkdir (extract_dir t)) v2 = (Continue, v3)"
    and r3: "run_steps (drop 3 (patch_steps env egg t)) v3 = (Continue, w3)"
    by (simp only: patch_steps_def drop_0 drop_Suc_Cons numeral_eq_Suc pred_numeral_simps One_nat_def arith_simps) (erule E, simp add: patch_steps_def)
  from r3 obtain v4 where s4: "unzip env (dest_egg t egg) (extract_dir t) v3 = (Continue, v4)"
    and r4: "run_steps (drop 4 (patch_steps env egg t)) v4 = (Continue, w3)"
    by (simp only: patch_steps_def drop_0 drop_Suc_Cons numeral_eq_Suc pred_numeral_simps One_nat_def arith_simps) (erule E, simp add: patch_steps_def)
  from r4 obtain v5 where s5: "tell DEBUG (ExtractedEgg (extract_dir t)) v4 = (Continue, v5)"
    and r5: "run_steps (drop 5 (patch_steps env egg t)) v5 = (Continue, w3)"
    by (simp only: patch_steps_def drop_0 drop_Suc_Cons numeral_eq_Suc pred_numeral_simps One_nat_def arith_simps) (erule E, simp add: patch_steps_def)
  from r5 obtain v6 where s6: "require_exists (old_pyc t) (ExpectedNotFound (old_pyc t)) v5 = (Continue, v6)"
    and r6: "run_steps (drop 6 (patch_steps env egg t)) v6 = (Continue, w3)"
    by (simp only: patch_steps_def drop_0 drop_Suc_Cons numeral_eq_Suc pred_numeral_simps One_nat_def arith_simps) (erule E, simp add: patch_steps_def)
  from r6 obtain v7 where s7: "action env AtRename (rename (old_pyc t) (new_pyc t)) v6 = (Continue, v7)"
    and r7: "run_steps (drop 7 (patch_steps env egg t)) v7 = (Continue, w3)"
    by (simp only: patch_steps_def drop_0 drop_Suc_Cons numeral_eq_Suc pred_numeral_simps One_nat_def arith_simps) (erule E, simp add: patch_steps_def)
  from r7 obtain v8 where s8: "tell DEBUG Renamed v7 = (Continue, v8)"
    and r8: "run_steps (drop 8 (patch_steps env egg t)) v8 = (Continue, w3)"
    by (simp only: patch_steps_def drop_0 drop_Suc_Cons numeral_eq_Suc pred_numeral_simps One_nat_def arith_simps) (erule E, simp add: patch_steps_def)
  from r8 obtain v9 where s9: "action env AtWriteText (write_file (new_py t) FacadeSrc) v8 = (Continue, v9)"
    and r9: "run_steps (drop 9 (patch_steps env egg t)) v9 = (Continue, w3)"
    by (simp only: patch_steps_def drop_0 drop_Suc_Cons numeral_eq_Suc pred_numeral_simps One_nat_def arith_simps) (erule E, simp add: patch_steps_def)
  from r9 obtain v10 where s10: "tell DEBUG (WroteNew (new_py t)) v9 = (Continue, v10)"
    and r10: "run_steps (drop 10 (patch_steps env egg t)) v10 = (Continue, w3)"
    by (simp only: patch_steps_def drop_0 drop_Suc_Cons numeral_eq_Suc pred_numeral_simps One_nat_def arith_simps) (erule E, simp add: patch_steps_def)
  from r10 obtain v11 where s11: "run_compiler env (new_py t) (pyc_file t) v10 = (Continue, v11)"
    and r11: "run_steps (drop 11 (patch_steps env egg t)) v11 = (Continue, w3)"
    by (simp only: patch_steps_def drop_0 drop_Suc_Cons numeral_eq_Suc pred_numeral_simps One_nat_def arith_simps) (erule E, simp add: patch_steps_def)
  from r11 obtain v12 where s12: "require_exists (pyc_file t) (CompiledNotFound (pyc_file t)) v11 = (Continue, v12)"
    and r12: "run_steps (drop 12 (patch_steps env egg t)) v12 = (Continue, w3)"
    by (simp only: patch_steps_def drop_0 drop_Suc_Cons numeral_eq_Suc pred_numeral_simps One_nat_def arith_simps) (erule E, simp add: patch_steps_def)
  from r12 obtain v13 where s13: "remove_source env (new_py t) v12 = (Continue, v13)"
    and r13: "run_steps (drop 13 (patch_steps env egg t)) v13 = (Continue, w3)"
    by (simp only: patch_steps_def drop_0 drop_Suc_Cons numeral_eq_Suc pred_numeral_simps One_nat_def arith_simps) (erule E, simp add: patch_steps_def)
  from r13 obtain v14 where s14: "action env AtRepack (repack (extract_dir t) (dest_egg t egg)) v13 = (Continue, v14)"
    and r14: "run_steps (drop 14 (patch_steps env egg t)) v14 = (Continue, w3)"
    by (simp only: patch_steps_def drop_0 drop_Suc_Cons numeral_eq_Suc pred_numeral_simps One_nat_def arith_simps) (erule E, simp add: patch_steps_def)
  from r14 obtain v15 where s15: "tell DEBUG (Repacked (dest_egg t egg)) v14 = (Continue, v15)"
    and r15: "run_steps (drop 15 (patch_steps env egg t)) v15 = (Continue, w3)"
    by (simp only: patch_steps_def drop_0 drop_Suc_Cons numeral_eq_Suc pred_numeral_simps One_nat_def arith_simps) (erule E, simp add: patch_steps_def)
  from r15 obtain v16 where s16: "backup env egg v15 = (Continue, v16)"
    and r16: "run_steps (drop 16 (patch_steps env egg t)) v16 = (Continue, w3)"
    by (simp only: patch_steps_def drop_0 drop_Suc_Cons numeral_eq_Suc pred_numeral_simps One_nat_def arith_simps) (erule E, simp add: patch_steps_def)
  from r16 obtain v17 where s17: "deploy env (dest_egg t egg) egg v16 = (Continue, v17)"
    and r17: "run_steps (drop 17 (patch_steps env egg t)) v17 = (Continue, w3)"
    by (simp only: patch_steps_def drop_0 drop_Suc_Cons numeral_eq_Suc pred_numeral_simps One_nat_def arith_simps) (erule E, simp add: patch_steps_def)
  from r17 obtain v18 where s18: "tell DEBUG (Deployed egg) v17 = (Continue, v18)"
    and r18: "run_steps (drop 18 (patch_steps env egg t)) v18 = (Continue, w3)"
    by (simp only: patch_steps_def drop_0 drop_Suc_Cons numeral_eq_Suc pred_numeral_simps One_nat_def arith_simps) (erule E, simp add: patch_steps_def)
  have last: "v18 = w3" using r18 by (simp add: patch_steps_def)
  have f2: "files v2 = files v1" using tell_Continue [OF s2] .
  have f5: "files v5 = files v4" using tell_Continue [OF s5] .
  have f6: "v6 = v5" "exists (files v5) (old_pyc t)" using require_exists_Continue [OF s6] by auto
  have f8: "files v8 = files v7" using tell_Continue [OF s8] .
  have f10: "files v10 = files v9" using tell_Continue [OF s10] .
  have f11: "cc_returncode env = 0" "files v11 = compileall env (new_py t) (pyc_file t) (files v10)"
    using run_compiler_Continue [OF s11] by auto
  have f12: "v12 = v11" "exists (files v11) (pyc_file t)" using require_exists_Continue [OF s12] by auto
  have f13: "files v13 = (if DEBUG_MODE env then files v12 else remove (new_py t) (files v12))"
    using remove_source_Continue [OF s13] .
  have f15: "files v15 = files v14" using tell_Continue [OF s15] .
  have f18: "files v18 = files v17" using tell_Continue [OF s18] .
  obtain z where z: "open_zip (dest_egg t egg) (files v3) = Inr z"
    "extractall (extract_dir t) z (files v3) = Inr (files v4)"
    using unzip_Continue [OF s4] by blast
  show ?thesis
  proof (rule that [of "files v1" "files v3" z "files v4" "files v7" "files v9" "files v14" "files v16"])
    show "copy2 egg (dest_egg t egg) (files w2) = Inr (files v1)"
      using action_Continue [OF s1] by simp
    show "mkdir (extract_dir t) (files v1) = Inr (files v3)"
      using action_Continue [OF s3] f2 by simp
    show "open_zip (dest_egg t egg) (files v3) = Inr z" by (rule z(1))
    show "extractall (extract_dir t) z (files v3) = Inr (files v4)" by (rule z(2))
    show "exists (files v4) (old_pyc t)" using f6 f5 by simp
    show "rename (old_pyc t) (new_pyc t) (files v4) = Inr (files v7)"
      using action_Continue [OF s7] f6 f5 by simp
    show "write_file (new_py t) FacadeSrc (files v7) = Inr (files v9)"
      using action_Continue [OF s9] f8 by simp
    show "cc_returncode env = 0" by (rule f11(1))
    show "exists (compileall env (new_py t) (pyc_file t) (files v9)) (pyc_file t)"
      using f12(2) f11(2) f10 by simp
    show "repack (extract_dir t) (dest_egg t egg)
       (if DEBUG_MODE env then compileall env (new_py t) (pyc_file t) (files v9)
        else remove (new_py t) (compileall env (new_py t) (pyc_file t) (files v9))) = Inr (files v14)"
      using action_Continue [OF s14] f13 f12(1) f11(2) f10 by (cases "DEBUG_MODE env") auto
    show "files v16 = files v14 \<or> copy2 egg (backup_path env egg) (files v14) = Inr (files v16)"
      using backup_Continue [OF s16] f15 by simp
    show "copy2 (dest_egg t egg) egg (files v16) = Inr (files w3)"
      using deploy_Continue [OF s17] f18 last by simp
  qed
qed

lemma copy2_put:
  assumes "copy2 src dst fs = Inr fs'"
  shows "\<exists>c q. lookup fs src = Some (File c) \<and> fs' = put q (File c) fs \<and>
           (if is_dir fs dst then q = dst @ [last src] else q = dst)"
  using assms
  by (auto simp: copy2_def Let_def split: option.splits node.splits if_splits
      dest!: write_file_result)

lemma open_zip_result:
  "open_zip p fs = Inr z \<Longrightarrow> \<exists>m. lookup fs p = Some (File (Zip m z))"
  by (auto simp: open_zip_def split: option.splits node.splits content.splits)

lemma module_paths:
  "old_pyc t = extract_dir t @ [''pyovpn'', ''lic'', ''uprop.pyc'']"
  "new_pyc t = extract_dir t @ [''pyovpn'', ''lic'', ''uprop2.pyc'']"
  by (simp_all add: old_pyc_def new_pyc_def lic_dir_def)

lemma rename_file_result:
  assumes "rename src dst fs = Inr fs'" "lookup fs src = Some (File c)" "src \<noteq> dst"
  shows "fs' = put dst (File c) (remove src fs)"
  using assms by (auto simp: rename_def split: if_splits)

text \<open>The module files in the tree that is repacked, in a run whose steps all continued.\<close>

lemma repacked_tree:
  assumes chain:
    "copy2 egg (dest_egg t egg) f0 = Inr f1"
    "mkdir (extract_dir t) f1 = Inr f3"
    "open_zip (dest_egg t egg) f3 = Inr z'"
    "extractall (extract_dir t) z' f3 = Inr f4"
    "rename (old_pyc t) (new_pyc t) f4 = Inr f7"
    "write_file (new_py t) FacadeSrc f7 = Inr f9"
    "exists (compileall env (new_py t) (pyc_file t) f9) (pyc_file t)"
    and f13: "f13 = (if DEBUG_MODE env then compileall env (new_py t) (pyc_file t) f9
        else remove (new_py t) (compileall env (new_py t) (pyc_file t) f9))"
    and src: "lookup f0 egg = Some (File (Zip m z))"
    and ext: "extracted_as z [''pyovpn'', ''lic'', ''uprop.pyc''] = Some (EFile c0)"
    and dist: "distinct (map fst f0)"
    and name: "last egg \<noteq> ''extracted''"
  shows "distinct (map fst f13)"
    and "lookup f13 (old_pyc t) = Some (File (Pyc CFacade))"
    and "lookup f13 (new_pyc t) = Some (File c0)"
proof -
  from copy2_put [OF chain(1)] src obtain q where
    f1: "f1 = put q (File (Zip m z)) f0"
    and q: "if is_dir f0 (dest_egg t egg) then q = dest_egg t egg @ [last egg] else q = dest_egg t egg"
    by auto
  have f3: "f3 = put (extract_dir t) Dir f1" using mkdir_result [OF chain(2)] by simp
  have ne: "dest_egg t egg \<noteq> extract_dir t" "dest_egg t egg \<noteq> []"
    using name by (auto simp: dest_egg_def extract_dir_def)
  have "lookup f3 (dest_egg t egg) = Some (File (Zip m z))"
  proof (cases "is_dir f0 (dest_egg t egg)")
    case True
    then have "lookup f3 (dest_egg t egg) = Some Dir"
      using f1 f3 q ne by (simp add: lookup_put is_dir_def)
    then show ?thesis using open_zip_result [OF chain(3)] by simp
  next
    case False
    then show ?thesis using f1 f3 q ne by (simp add: lookup_put)
  qed
  then have z': "z' = z" using open_zip_result [OF chain(3)] by auto
  have d3: "distinct (map fst f3)" using dist f1 f3 by (simp add: distinct_put)
  have d4: "distinct (map fst f4)" using extractall_keeps [OF chain(4) d3] .
  have l4: "lookup f4 (old_pyc t) = Some (File c0)"
    using extractall_lookup [OF chain(4) [unfolded z'] ext] by (simp add: module_paths)
  have f7: "f7 = put (new_pyc t) (File c0) (remove (old_pyc t) f4)"
    using rename_file_result [OF chain(5) l4] by simp
  have f9: "f9 = put (new_py t) (File FacadeSrc) f7" using write_file_result [OF chain(6)] by simp
  have d9: "distinct (map fst f9)" using d4 f7 f9 by (simp add: distinct_put distinct_remove)
  have l9: "lookup f9 (old_pyc t) = None" "lookup f9 (new_pyc t) = Some (File c0)"
    "lookup f9 (new_py t) = Some (File FacadeSrc)"
    using f7 f9 by (simp_all add: lookup_put lookup_remove)
  let ?cf = "compileall env (new_py t) (pyc_file t) f9"
  have cf: "?cf = put (old_pyc t) (File (Pyc CFacade)) f9"
    using chain(7) l9 by (auto simp: compileall_def py_compile_def exists_def split: if_splits)
  have dcf: "distinct (map fst ?cf)" using d9 cf by (simp add: distinct_put)
  have lcf: "lookup ?cf (old_pyc t) = Some (File (Pyc CFacade))" "lookup ?cf (new_pyc t) = Some (File c0)"
    using l9 cf by (simp_all add: lookup_put)
  show "distinct (map fst f13)" using f13 dcf by (simp add: distinct_remove)
  show "lookup f13 (old_pyc t) = Some (File (Pyc CFacade))"
    using f13 lcf by (simp add: lookup_remove)
  show "lookup f13 (new_pyc t) = Some (File c0)"
    using f13 lcf by (simp add: lookup_remove)
qed

lemma repack_result:
  assumes "repack d a fs = Inr fs'" "distinct (map fst fs)" "\<not> prefix d a" "a \<noteq> []"
  shows "\<exists>z'. lookup fs' a = Some (File (Zip ZIP_DEFLATED z')) \<and>
           (\<forall>r. r \<noteq> [] \<longrightarrow> zip_lookup z' r = map_option entry_of (lookup fs (d @ r)))"
proof -
  from assms(1) obtain fs1 where w: "write_file a (Zip ZIP_DEFLATED []) fs = Inr fs1"
    and fs': "fs' = put a (File (Zip ZIP_DEFLATED (repack_entries d fs1))) fs1"
    by (auto simp: repack_def split: sum.splits)
  have fs1: "fs1 = put a (File (Zip ZIP_DEFLATED [])) fs" using write_file_result [OF w] by simp
  have d1: "distinct (map fst fs1)" using assms(2) fs1 by (simp add: distinct_put)
  have "zip_lookup (repack_entries d fs1) r = map_option entry_of (lookup fs (d @ r))"
    if "r \<noteq> []" for r
  proof -
    have "d @ r \<noteq> a" using assms(3) by auto
    then show ?thesis
      using repack_entries_lookup [OF d1 that, of d] that by (simp add: fs1 lookup_put)
  qed
  then show ?thesis using fs' assms(4) by (auto simp: lookup_put)
qed

lemma dest_not_backup:
  assumes "egg \<in> set (glob EGG_DIR EGG_PATTERN fs)" "t = g @ [''pyovpn_patch_'' @ n]"
  shows "dest_egg t egg \<noteq> backup_path env egg" "dest_egg t egg \<noteq> backup_path env egg @ [last egg]"
proof -
  from egg_shape [OF assms(1)] obtain r where e: "egg = EGG_DIR @ [''pyovpn-'' @ r]" by blast
  show "dest_egg t egg \<noteq> backup_path env egg"
    using e by (auto simp: dest_egg_def backup_path_def BACKUP_DIR_def assms(2))
  show "dest_egg t egg \<noteq> backup_path env egg @ [last egg]"
    using e by (auto simp: dest_egg_def backup_path_def BACKUP_DIR_def assms(2))
qed

text \<open>
  The archive at the live path after a run that deployed: the generated module under the
  original name, and under the alias whatever the extraction had put at the original name.
\<close>

lemma deployed_archive:
  assumes "patch env fs = (unc, w)" and "(l, Deployed e) \<in> set (log w)"
    and "glob EGG_DIR EGG_PATTERN fs = egg # es"
    and "lookup fs egg = Some (File (Zip m z))"
    and "extracted_as z [''pyovpn'', ''lic'', ''uprop.pyc''] = Some (EFile c0)"
    and "distinct (map fst fs)"
  shows "e = egg \<and> unc = None \<and>
         (\<exists>z'. lookup (files w) egg = Some (File (Zip ZIP_DEFLATED z'))
            \<and> zip_lookup z' [''pyovpn'', ''lic'', ''uprop.pyc''] = Some (EFile (Pyc CFacade))
            \<and> zip_lookup z' [''pyovpn'', ''lic'', ''uprop2.pyc''] = Some (EFile c0))"
  using assms(1)
proof (cases rule: patch_cases)
  case no_egg
  then show ?thesis using assms(2) by simp
next
  case (not_file egg' es')
  then show ?thesis using assms(2) by auto
next
  case (no_temp egg' es' x)
  then show ?thesis using assms(2) by auto
next
  case (run egg' es' t fs1 w2 sg w3 w4)
  have eq: "egg' = egg" using run(1) assms(3) by simp
  note r = run [unfolded eq]
  let ?bp = "backup_path env egg" and ?ed = "extract_dir t" and ?dest = "dest_egg t egg"
  have mem: "egg \<in> set (glob EGG_DIR EGG_PATTERN fs)" using assms(3) by simp
  from egg_shape [OF mem] obtain rr where egg: "egg = EGG_DIR @ [''pyovpn-'' @ rr]" by blast
  from mkdtemp_shape [OF r(3)] obtain n where
    t: "t = gettempdir env @ [''pyovpn_patch_'' @ n]" and fs1: "fs1 = put t Dir fs" by blast
  have nt: "\<not> prefix t egg" unfolding t by (rule egg_not_in_workspace [OF mem])
  from run_summary(1) [OF r(3,4,6,7,8)] obtain ms hs fl where
    L: "log w = log w2 @ ms @ hs @ fl"
       "traces (patch_traces env egg t) (sg = Continue) ms"
       "\<forall>r \<in> set hs. fst r = ERROR \<and> \<not> is_progress (snd r)"
       "(\<forall>e. sg \<noteq> Raise e) \<longrightarrow> hs = []"
       "set fl \<subseteq> {(DEBUG, CleanedUp t)}"
    by blast
  from run_log_facts(2) [OF r(5) L assms(2)] have sg: "sg = Continue" and e: "e = egg" by auto
  have unc: "unc = None" using r(7) sg by (simp add: handlers_def)
  from r(6) [unfolded sg] obtain f1 f3 z1 f4 f7 f9 f14 fb where chain:
    "copy2 egg ?dest (files w2) = Inr f1"
    "mkdir ?ed f1 = Inr f3"
    "open_zip ?dest f3 = Inr z1"
    "extractall ?ed z1 f3 = Inr f4"
    "exists f4 (old_pyc t)"
    "rename (old_pyc t) (new_pyc t) f4 = Inr f7"
    "write_file (new_py t) FacadeSrc f7 = Inr f9"
    "cc_returncode env = 0"
    "exists (compileall env (new_py t) (pyc_file t) f9) (pyc_file t)"
    "repack ?ed ?dest
       (if DEBUG_MODE env then compileall env (new_py t) (pyc_file t) f9
        else remove (new_py t) (compileall env (new_py t) (pyc_file t) f9)) = Inr f14"
    "fb = f14 \<or> copy2 egg ?bp f14 = Inr fb"
    "copy2 ?dest egg fb = Inr (files w3)"
    by (rule success_chain)
  define f13 where "f13 = (if DEBUG_MODE env then compileall env (new_py t) (pyc_file t) f9
        else remove (new_py t) (compileall env (new_py t) (pyc_file t) f9))"
  have f0: "files w2 = put t Dir fs" using r(4) fs1 by simp
  have src: "lookup (files w2) egg = Some (File (Zip m z))"
    using assms(4) nt f0 by (auto simp: lookup_put)
  have d0: "distinct (map fst (files w2))" using assms(6) f0 by (simp add: distinct_put)
  have name: "last egg \<noteq> ''extracted''" using egg by simp
  note tree = repacked_tree [OF chain(1,2,3,4,6,7,9) f13_def src assms(5) d0 name]
  have nd: "\<not> prefix ?ed ?dest" "?dest \<noteq> []"
    using name by (auto simp: extract_dir_def dest_egg_def)
  from repack_result [OF chain(10) [folded f13_def] tree(1) nd] obtain z' where
    z': "lookup f14 ?dest = Some (File (Zip ZIP_DEFLATED z'))"
        "\<forall>r. r \<noteq> [] \<longrightarrow> zip_lookup z' r = map_option entry_of (lookup f13 (?ed @ r))"
    by blast
  have m1: "zip_lookup z' [''pyovpn'', ''lic'', ''uprop.pyc''] = Some (EFile (Pyc CFacade))"
    using z'(2) tree(2) by (simp add: module_paths entry_of_def)
  have m2: "zip_lookup z' [''pyovpn'', ''lic'', ''uprop2.pyc''] = Some (EFile c0)"
    using z'(2) tree(3) by (simp add: module_paths entry_of_def)
  have e14: "lookup f14 egg = Some (File (Zip m z))"
  proof -
    let ?P = "strict_prefix t"
    have a: "same_except ?P (files w2) f1"
      by (rule copy2_frame [OF chain(1)]) (auto simp: dest_egg_def strict_prefix_def)
    have b: "same_except ?P f1 f3" by (rule mkdir_frame [OF chain(2)]) simp
    have c: "same_except ?P f3 f4"
      by (rule extractall_frame [OF chain(4)]) (rule below_workspace [OF prefix_workspace(2)])
    have d: "same_except ?P f4 f7"
    proof (rule rename_frame [OF chain(6)])
      fix p assume "prefix (old_pyc t) p"
      then show "strict_prefix t p" using below_workspace [of t "old_pyc t"] by simp
    next
      fix p assume "prefix (new_pyc t) p"
      then show "strict_prefix t p" using below_workspace [of t "new_pyc t"] by simp
    qed
    have e': "same_except ?P f7 f9" by (rule write_file_frame [OF chain(7)]) simp
    have f: "same_except ?P f9 (compileall env (new_py t) (pyc_file t) f9)"
      by (rule compileall_frame) simp
    have g: "same_except ?P (compileall env (new_py t) (pyc_file t) f9) f13"
      unfolding f13_def by (simp add: same_except_refl same_except_remove)
    have h: "same_except ?P f13 f14"
      by (rule repack_frame [OF chain(10) [folded f13_def]]) simp
    have "same_except ?P (files w2) f14"
      using a b c d e' f g h by (blast intro: same_except_trans)
    moreover have "\<not> strict_prefix t egg" using nt by (simp add: strict_prefix_def)
    ultimately show ?thesis using src by (simp add: same_except_def)
  qed
  have bk: "lookup fb egg = lookup f14 egg \<and> lookup fb ?dest = lookup f14 ?dest"
  proof (cases "fb = f14")
    case True
    then show ?thesis by simp
  next
    case False
    then have "copy2 egg ?bp f14 = Inr fb" using chain(11) by simp
    from copy2_put [OF this] obtain c q where
      q: "fb = put q (File c) f14" "q = ?bp \<or> q = ?bp @ [last egg]"
      by (auto split: if_splits)
    have "q \<noteq> egg" using q(2) egg_not_backup [OF mem, of env egg] by auto
    moreover have "q \<noteq> ?dest" using q(2) dest_not_backup [OF mem t, of env] by auto
    ultimately show ?thesis using q(1) by (simp add: lookup_put)
  qed
  from copy2_put [OF chain(12)] obtain c q where
    dq: "lookup fb ?dest = Some (File c)" "files w3 = put q (File c) fb"
        "if is_dir fb egg then q = egg @ [last ?dest] else q = egg"
    by blast
  have "\<not> is_dir fb egg" using bk e14 by (simp add: is_dir_def)
  then have "q = egg" using dq(3) by simp
  moreover have "c = Zip ZIP_DEFLATED z'" using dq(1) bk z'(1) by simp
  moreover have "egg \<noteq> []" using egg by simp
  ultimately have l3: "lookup (files w3) egg = Some (File (Zip ZIP_DEFLATED z'))"
    using dq(2) by (simp add: lookup_put)
  have "files w4 = files w3" using handlers_effect(1) [OF r(7)] .
  moreover have "same_except (prefix t) (files w4) (files w)"
    using finally_effect(2) [of t w4 env] r(8) by simp
  ultimately have "lookup (files w) egg = Some (File (Zip ZIP_DEFLATED z'))"
    using nt l3 by (simp add: same_except_def)
  then show ?thesis using e unc m1 m2 by blast
qed

lemma reserved_after_class:
  "\<not> ''new_figure'' \<le> ''UsageProperties''"
  by code_simp

lemma get_set_global:
  "modules st m \<noteq> None \<Longrightarrow>
     get_global (set_global m x v st) m' k =
       (if m' = m \<and> k = x then Some v else get_global st m' k)"
  by (auto simp: get_global_def set_global_def update_conv' split: option.splits)

lemma modules_set_global:
  "modules (set_global m x v st) m' =
     (if m' = m then map_option (AList.update x v) (modules st m) else modules st m')"
  by (auto simp: set_global_def split: option.splits)

lemma classes_set_global [simp]: "classes (set_global m x v st) = classes st"
  by (auto simp: set_global_def split: option.splits)

lemma names_differ [simp]: "UPROP \<noteq> UPROP2" "UPROP2 \<noteq> UPROP"
  by (simp_all add: UPROP_def UPROP2_def)

lemma get_global_set_other:
  "m' \<noteq> m \<or> k \<noteq> x \<Longrightarrow> get_global (set_global m x v st) m' k = get_global st m' k"
  by (auto simp: get_global_def set_global_def update_conv' split: option.splits)

lemma loop_state_set:
  assumes "loop_state ns2 st" "x \<noteq> ''uprop2''" "x \<noteq> ''exec''"
  shows "loop_state ns2 (set_global UPROP x v st)"
  using assms by (auto simp: loop_state_def get_set_global modules_set_global)

lemma ready_set:
  assumes "ready ns2 cl st" "x \<noteq> ''uprop2''" "x \<noteq> ''exec''" "x \<noteq> ''new_figure''"
  shows "ready ns2 cl (set_global UPROP x v st)"
  using assms by (simp add: ready_def loop_state_set get_global_set_other)

lemma class_patched_set:
  assumes "class_patched ns2 c attrs st" "x \<noteq> ''UsageProperties''"
  shows "class_patched ns2 c attrs (set_global UPROP x v st)"
  using assms by (simp add: class_patched_def modules_set_global get_global_set_other)


text \<open>A round for any other name than the class only binds globals of the module.\<close>

lemma body_effect:
  assumes "facade_loop_body m x st = Inr st'" "x \<noteq> ''UsageProperties''"
  shows "st' = set_global m ''x'' (VStr x) st
       \<or> (\<exists>v. st' = set_global m x v (set_global m ''x'' (VStr x) st))"
  using assms
  by (auto simp: facade_loop_body_def Let_def exec_stmt_def reexport_def
      split: if_splits option.splits sum.splits)

lemma facade_loop_append:
  "facade_loop m (xs @ ys) st =
     (case facade_loop m xs st of Inl e \<Rightarrow> Inl e | Inr st' \<Rightarrow> facade_loop m ys st')"
  by (induction xs arbitrary: st) (auto split: sum.splits)

lemma reserved_names:
  "\<not> ''uprop2'' \<le> ''UsageProperties''" "\<not> ''exec'' \<le> ''UsageProperties''"
  "\<not> ''x'' \<le> ''UsageProperties''"
  by code_simp+

lemma early_name:
  assumes "x \<le> ''UsageProperties''"
  shows "x \<noteq> ''uprop2''" "x \<noteq> ''exec''" "x \<noteq> ''new_figure''" "x \<noteq> ''x''"
  using assms reserved_names reserved_after_class by auto

lemma ready_body:
  assumes "ready ns2 cl st" "facade_loop_body UPROP x st = Inr st'"
    "x \<le> ''UsageProperties''" "x \<noteq> ''UsageProperties''"
  shows "ready ns2 cl st'"
proof -
  have r0: "ready ns2 cl (set_global UPROP ''x'' (VStr x) st)"
    using assms(1) by (rule ready_set) simp_all
  have r1: "ready ns2 cl (set_global UPROP x v (set_global UPROP ''x'' (VStr x) st))" for v
    using r0 early_name(1-3) [OF assms(3)] by (rule ready_set)
  from body_effect [OF assms(2,4)] show ?thesis using r0 r1 by auto
qed

lemma ready_loop:
  assumes "ready ns2 cl st" "facade_loop UPROP xs st = Inr st'"
    "\<forall>x \<in> set xs. x \<le> ''UsageProperties'' \<and> x \<noteq> ''UsageProperties''"
  shows "ready ns2 cl st'"
  using assms
proof (induction xs arbitrary: st)
  case Nil
  then show ?case by simp
next
  case (Cons x xs)
  from Cons.prems(2) obtain s1 where b: "facade_loop_body UPROP x st = Inr s1"
    and l: "facade_loop UPROP xs s1 = Inr st'" by (auto split: sum.splits)
  have "ready ns2 cl s1" using ready_body [OF Cons.prems(1) b] Cons.prems(3) by simp
  from Cons.IH [OF this l] Cons.prems(3) show ?case by simp
qed


lemma class_patched_loop:
  assumes "class_patched ns2 c attrs st" "facade_loop UPROP xs st = Inr st'"
    "''UsageProperties'' \<notin> set xs"
  shows "class_patched ns2 c attrs st'"
  using assms
proof (induction xs arbitrary: st)
  case Nil
  then show ?case by simp
next
  case (Cons x xs)
  from Cons.prems(2) obtain s1 where b: "facade_loop_body UPROP x st = Inr s1"
    and l: "facade_loop UPROP xs s1 = Inr st'" by (auto split: sum.splits)
  have x: "x \<noteq> ''UsageProperties''" using Cons.prems(3) by auto
  have r0: "class_patched ns2 c attrs (set_global UPROP ''x'' (VStr x) st)"
    using Cons.prems(1) by (rule class_patched_set) simp
  have r1: "class_patched ns2 c attrs (set_global UPROP x v (set_global UPROP ''x'' (VStr x) st))"
    for v using r0 x by (rule class_patched_set)
  from body_effect [OF b x] have "class_patched ns2 c attrs s1" using r0 r1 by auto
  from Cons.IH [OF this l] Cons.prems(3) show ?case by simp
qed



text \<open>
  The round for \<^verbatim>\<open>UsageProperties\<close>: the three statements run in their order; the class
  is changed by the second, and only the third binds the name in the generated module.
\<close>

lemma class_round:
  assumes rd: "ready ns2 cl st" and cls: "map_of ns2 ''UsageProperties'' = Some (VClass c)"
  shows "facade_loop_body UPROP ''UsageProperties'' st =
           (case cl c of
              None \<Rightarrow> Inl AttributeError
            | Some attrs \<Rightarrow>
                (case map_of attrs ''figure'' of
                   None \<Rightarrow> Inl AttributeError
                 | Some f \<Rightarrow>
                     reexport UPROP ''UsageProperties''
                       ((set_global UPROP ''old_figure'' f
                           (set_global UPROP ''x'' (VStr ''UsageProperties'') st))
                        \<lparr>classes := cl(c \<mapsto> AList.update ''figure'' (VFunc (NewFigure UPROP)) attrs)\<rparr>)))"
proof -
  let ?s0 = "set_global UPROP ''x'' (VStr ''UsageProperties'') st"
  have cst: "classes st = cl" using rd by (simp add: ready_def)
  have r0: "ready ns2 cl ?s0" using rd by (rule ready_set) simp_all
  then have g0: "get_global ?s0 UPROP ''exec'' = None"
    "get_global ?s0 UPROP ''uprop2'' = Some (VModule UPROP2)"
    "modules ?s0 UPROP2 = Some ns2" "classes ?s0 = cl"
    by (simp_all add: ready_def loop_state_def)
  have save: "exec_stmt UPROP (save_old_figure UPROP) ?s0 =
          (case cl c of
              None \<Rightarrow> Inl AttributeError
            | Some attrs \<Rightarrow>
                (case map_of attrs ''figure'' of
                   None \<Rightarrow> Inl AttributeError
                 | Some f \<Rightarrow> Inr (set_global UPROP ''old_figure'' f ?s0)))"
    unfolding exec_stmt_def save_old_figure_def getattr_def
    using cst by (simp add: g0(1,2,3) cls split: option.splits)
  show ?thesis
  proof (cases "cl c")
    case None
    then show ?thesis using save by (simp add: facade_loop_body_def Let_def)
  next
    case (Some attrs)
    show ?thesis
    proof (cases "map_of attrs ''figure''")
      case None
      then show ?thesis using save Some by (simp add: facade_loop_body_def Let_def)
    next
      case (Some f)
      let ?s1 = "set_global UPROP ''old_figure'' f ?s0"
      let ?s2 = "?s1\<lparr>classes := cl(c \<mapsto> AList.update ''figure'' (VFunc (NewFigure UPROP)) attrs)\<rparr>"
      have r1: "ready ns2 cl ?s1" using r0 by (rule ready_set) simp_all
      then have g1: "get_global ?s1 UPROP ''exec'' = None"
        "get_global ?s1 UPROP ''uprop2'' = Some (VModule UPROP2)"
        "get_global ?s1 UPROP ''new_figure'' = Some (VFunc (NewFigure UPROP))"
        "modules ?s1 UPROP2 = Some ns2" "classes ?s1 = cl"
        by (simp_all add: ready_def loop_state_def)
      have inst: "exec_stmt UPROP (install_new_figure UPROP) ?s1 = Inr ?s2"
        unfolding exec_stmt_def install_new_figure_def getattr_def setattr_def
        using \<open>cl c = Some attrs\<close> cst by (simp add: g1(1-4) cls)
      have "get_global ?s2 UPROP ''exec'' = get_global ?s1 UPROP ''exec''"
        by (simp add: get_global_def)
      then have g2: "get_global ?s2 UPROP ''exec'' = None" using g1(1) by simp
      have "facade_loop_body UPROP ''UsageProperties'' st = reexport UPROP ''UsageProperties'' ?s2"
        using save inst \<open>cl c = Some attrs\<close> Some g2
        by (simp add: facade_loop_body_def Let_def exec_stmt_def)
      then show ?thesis using \<open>cl c = Some attrs\<close> Some by simp
    qed
  qed
qed

lemma class_round_result:
  assumes rd: "ready ns2 cl st" and cls: "map_of ns2 ''UsageProperties'' = Some (VClass c)"
    and at: "cl c = Some attrs" and fig: "map_of attrs ''figure'' = Some f"
  shows "\<exists>s2 st'. facade_loop_body UPROP ''UsageProperties'' st = Inr st'
           \<and> reexport UPROP ''UsageProperties'' s2 = Inr st'
           \<and> getattr s2 (VClass c) ''figure'' = Inr (VFunc (NewFigure UPROP))
           \<and> get_global s2 UPROP ''UsageProperties'' = get_global st UPROP ''UsageProperties''
           \<and> after_class ns2 c attrs f st'"
proof -
  let ?s0 = "set_global UPROP ''x'' (VStr ''UsageProperties'') st"
  let ?s1 = "set_global UPROP ''old_figure'' f ?s0"
  let ?s2 = "?s1\<lparr>classes := cl(c \<mapsto> AList.update ''figure'' (VFunc (NewFigure UPROP)) attrs)\<rparr>"
  let ?s3 = "set_global UPROP ''UsageProperties'' (VClass c) ?s2"
  have r0: "ready ns2 cl ?s0" using rd by (rule ready_set) simp_all
  have r1: "ready ns2 cl ?s1" using r0 by (rule ready_set) simp_all
  have gg: "get_global ?s2 m k = get_global ?s1 m k" for m k by (simp add: get_global_def)
  have ls1: "loop_state ns2 ?s1" using r1 by (simp add: ready_def)
  have ls2: "loop_state ns2 ?s2" using ls1 by (simp add: loop_state_def gg)
  have re: "reexport UPROP ''UsageProperties'' ?s2 = Inr ?s3"
    using ls2 cls by (simp add: reexport_def loop_state_def getattr_def)
  have body: "facade_loop_body UPROP ''UsageProperties'' st = Inr ?s3"
    using class_round [OF rd cls] at fig re by simp
  have fig2: "getattr ?s2 (VClass c) ''figure'' = Inr (VFunc (NewFigure UPROP))"
    by (simp add: getattr_def update_conv')
  have unb: "get_global ?s2 UPROP ''UsageProperties'' = get_global st UPROP ''UsageProperties''"
    by (simp add: gg get_global_set_other)
  have ls3: "loop_state ns2 ?s3" using ls2 by (rule loop_state_set) simp_all
  have m2: "modules ?s2 UPROP \<noteq> None" using ls2 by (simp add: loop_state_def)
  have m0: "modules ?s0 UPROP \<noteq> None" using r0 by (simp add: ready_def loop_state_def)
  have "get_global ?s1 UPROP ''old_figure'' = Some f" using m0 by (simp add: get_set_global)
  then have of3: "get_global ?s3 UPROP ''old_figure'' = Some f"
    by (simp add: get_global_set_other gg)
  have us3: "get_global ?s3 UPROP ''UsageProperties'' = Some (VClass c)"
    using m2 by (simp add: get_set_global)
  have cp: "class_patched ns2 c attrs ?s3"
    using ls3 us3 by (simp add: class_patched_def loop_state_def)
  have "after_class ns2 c attrs f ?s3" using ls3 of3 cp by (simp add: after_class_def)
  then show ?thesis using body re fig2 unb by blast
qed

lemma loop_keeps_global:
  assumes "facade_loop UPROP xs st = Inr st'" "''UsageProperties'' \<notin> set xs" "k \<notin> set xs"
    "k \<noteq> ''x''"
  shows "get_global st' UPROP k = get_global st UPROP k"
  using assms
proof (induction xs arbitrary: st)
  case Nil
  then show ?case by simp
next
  case (Cons x xs)
  from Cons.prems(1) obtain s1 where b: "facade_loop_body UPROP x st = Inr s1"
    and l: "facade_loop UPROP xs s1 = Inr st'" by (auto split: sum.splits)
  have x: "x \<noteq> ''UsageProperties''" "k \<noteq> x" using Cons.prems(2,3) by auto
  from body_effect [OF b x(1)] have "get_global s1 UPROP k = get_global st UPROP k"
    using x(2) Cons.prems(4) by (auto simp: get_global_set_other)
  then show ?case using Cons.IH [OF l] Cons.prems(2,3,4) by simp
qed

lemma names_split:
  assumes "u \<in> fst ` set ns"
  shows "\<exists>as bs. sort (remdups (map fst ns)) = as @ u # bs
           \<and> (\<forall>x \<in> set as. x \<le> u \<and> x \<noteq> u) \<and> u \<notin> set bs
           \<and> set as \<subseteq> fst ` set ns \<and> set bs \<subseteq> fst ` set ns"
proof -
  let ?xs = "sort (remdups (map fst ns))"
  have s: "sorted ?xs" and d: "distinct ?xs" and e: "set ?xs = fst ` set ns" by simp_all
  have "u \<in> set ?xs" unfolding e by (rule assms)
  then obtain as bs where sp: "?xs = as @ u # bs" by (meson split_list)
  have "\<forall>x \<in> set as. x \<le> u" using s unfolding sp by (simp add: sorted_append)
  moreover have "u \<notin> set as" "u \<notin> set bs" using d unfolding sp by simp_all
  moreover have "set as \<subseteq> fst ` set ns" "set bs \<subseteq> fst ` set ns"
    using e unfolding sp by auto
  ultimately show ?thesis using sp by blast
qed

lemma init_globals_names:
  "map_of (init_globals m) ''UsageProperties'' = None" "map_of (init_globals m) ''exec'' = None"
  "''uprop2'' \<notin> fst ` set (init_globals m)" "''exec'' \<notin> fst ` set (init_globals m)"
  "''old_figure'' \<notin> fst ` set (init_globals m)"
  by (simp_all add: init_globals_def)

text \<open>The state in which the loop of the generated module starts.\<close>

lemma facade_exec_start:
  assumes u: "modules st1 UPROP = Some (init_globals UPROP)"
    and u2: "modules st1 UPROP2 = Some ns2"
  shows "\<exists>st3. facade_exec UPROP st1 = facade_loop UPROP (sort (remdups (map fst ns2))) st3
           \<and> ready ns2 (classes st1) st3
           \<and> get_global st3 UPROP ''UsageProperties'' = None"
proof -
  let ?a = "set_global UPROP ''uprop2'' (VModule UPROP2) st1"
  let ?b = "set_global UPROP ''old_figure'' VNone ?a"
  let ?c = "set_global UPROP ''new_figure'' (VFunc (NewFigure UPROP)) ?b"
  have m1: "modules st1 UPROP \<noteq> None" using u by simp
  have ma: "modules ?a UPROP \<noteq> None" using m1 by (simp add: modules_set_global)
  have mb: "modules ?b UPROP \<noteq> None" using ma by (simp add: modules_set_global)
  have mc: "modules ?c UPROP \<noteq> None" using mb by (simp add: modules_set_global)
  have m2: "modules ?c UPROP2 = Some ns2" using u2 by (simp add: modules_set_global)
  have ga: "get_global ?a UPROP ''uprop2'' = Some (VModule UPROP2)"
    using m1 by (simp add: get_set_global)
  then have gc: "get_global ?c UPROP ''uprop2'' = Some (VModule UPROP2)"
    by (simp add: get_global_set_other)
  have "get_global st1 UPROP ''exec'' = None"
    using u by (simp add: get_global_def init_globals_names)
  then have ge: "get_global ?c UPROP ''exec'' = None" by (simp add: get_global_set_other)
  have "get_global st1 UPROP ''UsageProperties'' = None"
    using u by (simp add: get_global_def init_globals_names)
  then have gu: "get_global ?c UPROP ''UsageProperties'' = None"
    by (simp add: get_global_set_other)
  have gn: "get_global ?c UPROP ''new_figure'' = Some (VFunc (NewFigure UPROP))"
    using mb by (simp add: get_set_global)
  have rd: "ready ns2 (classes st1) ?c"
    using m2 mc gc ge gn by (simp add: ready_def loop_state_def)
  have "dir ?c (VModule UPROP2) = sort (remdups (map fst ns2))" using m2 by (simp add: dir_def)
  then have "facade_exec UPROP st1 = facade_loop UPROP (sort (remdups (map fst ns2))) ?c"
    using u2 gc by (simp add: facade_exec_def Let_def)
  then show ?thesis using rd gu by blast
qed

text \<open>
  Running the generated module over an original module that has the class: if it ends
  without an exception, the class had a \<^verbatim>\<open>figure\<close>, which is now the wrapper, and the
  generated module exports that class. The wrapper was put on the class in a state \<open>s2\<close>
  in which the generated module had not bound the class yet; what followed was the
  re-export and the rounds for the other names.
\<close>

lemma facade_exec_patched:
  assumes u: "modules st1 UPROP = Some (init_globals UPROP)"
    and u2: "modules st1 UPROP2 = Some ns2"
    and cls: "map_of ns2 ''UsageProperties'' = Some (VClass c)"
    and ok: "facade_exec UPROP st1 = Inr st"
  shows "\<exists>attrs f. classes st1 c = Some attrs \<and> map_of attrs ''figure'' = Some f
           \<and> class_patched ns2 c attrs st
           \<and> (\<exists>s2 s3 bs. getattr s2 (VClass c) ''figure'' = Inr (VFunc (NewFigure UPROP))
                 \<and> get_global s2 UPROP ''UsageProperties'' = None
                 \<and> reexport UPROP ''UsageProperties'' s2 = Inr s3
                 \<and> ''UsageProperties'' \<notin> set bs \<and> facade_loop UPROP bs s3 = Inr st)"
proof -
  from facade_exec_start [OF u u2] obtain st3 where
    st3: "facade_exec UPROP st1 = facade_loop UPROP (sort (remdups (map fst ns2))) st3"
      "ready ns2 (classes st1) st3" "get_global st3 UPROP ''UsageProperties'' = None" by blast
  have "''UsageProperties'' \<in> fst ` set ns2"
    using cls by (metis domI dom_map_of_conv_image_fst)
  from names_split [OF this] obtain as bs where
    sp: "sort (remdups (map fst ns2)) = as @ ''UsageProperties'' # bs"
      "\<forall>x \<in> set as. x \<le> ''UsageProperties'' \<and> x \<noteq> ''UsageProperties''"
      "''UsageProperties'' \<notin> set bs" by blast
  have "facade_loop UPROP (as @ ''UsageProperties'' # bs) st3 = Inr st"
    using ok st3(1) sp(1) by simp
  then obtain sa sb where
    la: "facade_loop UPROP as st3 = Inr sa"
    and bd: "facade_loop_body UPROP ''UsageProperties'' sa = Inr sb"
    and lb: "facade_loop UPROP bs sb = Inr st"
    by (auto simp: facade_loop_append split: sum.splits)
  have ra: "ready ns2 (classes st1) sa" using ready_loop [OF st3(2) la sp(2)] .
  have na: "''UsageProperties'' \<notin> set as" using sp(2) by auto
  have ua: "get_global sa UPROP ''UsageProperties'' = None"
    using loop_keeps_global [OF la na na] st3(3) by simp
  from class_round [OF ra cls] bd obtain attrs f where
    at: "classes st1 c = Some attrs" "map_of attrs ''figure'' = Some f"
    by (auto split: option.splits)
  from class_round_result [OF ra cls at] bd obtain s2 where
    s2: "reexport UPROP ''UsageProperties'' s2 = Inr sb"
      "getattr s2 (VClass c) ''figure'' = Inr (VFunc (NewFigure UPROP))"
      "get_global s2 UPROP ''UsageProperties'' = get_global sa UPROP ''UsageProperties''"
      "after_class ns2 c attrs f sb" by auto
  have "class_patched ns2 c attrs sb" using s2(4) by (simp add: after_class_def)
  from class_patched_loop [OF this lb sp(3)] have cp: "class_patched ns2 c attrs st" .
  show ?thesis using at cp s2(1,2,3) ua sp(3) lb by (metis (no_types))
qed


lemma module_code_lookup:
  "zip_lookup z [''pyovpn'', ''lic'', ''uprop.pyc''] = Some (EFile (Pyc c))
     \<Longrightarrow> module_code z ''uprop'' = Some c"
  "zip_lookup z [''pyovpn'', ''lic'', ''uprop2.pyc''] = Some (EFile (Pyc c))
     \<Longrightarrow> module_code z ''uprop2'' = Some c"
  by (simp_all add: module_code_def)

lemma getattr_global:
  "get_global st m x = Some v \<Longrightarrow> getattr st (VModule m) x = Inr v"
  by (auto simp: get_global_def getattr_def split: option.splits)

text \<open>Importing the generated module in a fresh interpreter, over an original module.\<close>

lemma import_over_original:
  assumes "module_code z ''uprop'' = Some CFacade" "module_code z ''uprop2'' = Some (COrig g cls)"
  shows "import_uprop z empty_state
           = facade_exec UPROP (load_orig UPROP2 g cls (new_module UPROP empty_state))"
    and "modules (load_orig UPROP2 g cls (new_module UPROP empty_state)) UPROP
           = Some (init_globals UPROP)"
    and "modules (load_orig UPROP2 g cls (new_module UPROP empty_state)) UPROP2
           = Some (init_globals UPROP2 @ g)"
    and "classes (load_orig UPROP2 g cls (new_module UPROP empty_state)) c = map_of cls c"
  using assms
  by (simp_all add: import_uprop_def import_uprop2_def empty_state_def new_module_def
      load_orig_def split: option.splits)

lemma original_names:
  "map_of (init_globals m @ g) ''UsageProperties'' = map_of g ''UsageProperties''"
  "''uprop2'' \<notin> fst ` set g \<Longrightarrow> ''uprop2'' \<notin> fst ` set (init_globals m @ g)"
  "''exec'' \<notin> fst ` set g \<Longrightarrow> ''exec'' \<notin> fst ` set (init_globals m @ g)"
  "''old_figure'' \<notin> fst ` set g \<Longrightarrow> ''old_figure'' \<notin> fst ` set (init_globals m @ g)"
  by (simp_all add: init_globals_def map_add_def split: option.splits)



text \<open>
  The generated module imported over itself (both names hold the generated bytecode):
  the import ends, and neither module has the class.
\<close>

lemma double_facade_run:
  "(case (case facade_exec UPROP2 (new_module UPROP2 (new_module UPROP empty_state)) of
            Inl e \<Rightarrow> Inl e
          | Inr st1 \<Rightarrow> facade_exec UPROP st1) of
      Inl e \<Rightarrow> False
    | Inr st \<Rightarrow> getattr st (VModule UPROP) ''UsageProperties'' = Inl AttributeError
              \<and> getattr st (VModule UPROP2) ''UsageProperties'' = Inl AttributeError
              \<and> getattr st (VModule UPROP) ''old_figure'' = Inr VNone)"
  by code_simp

lemma import_double_facade:
  assumes "module_code z ''uprop'' = Some CFacade" "module_code z ''uprop2'' = Some CFacade"
  shows "\<exists>st. import_uprop z empty_state = Inr st
           \<and> getattr st (VModule UPROP) ''UsageProperties'' = Inl AttributeError
           \<and> getattr st (VModule UPROP2) ''UsageProperties'' = Inl AttributeError
           \<and> getattr st (VModule UPROP) ''old_figure'' = Inr VNone"
proof -
  have "import_uprop z empty_state =
          (case facade_exec UPROP2 (new_module UPROP2 (new_module UPROP empty_state)) of
            Inl e \<Rightarrow> Inl e
          | Inr st1 \<Rightarrow> facade_exec UPROP st1)"
    using assms
    by (simp add: import_uprop_def import_uprop2_def empty_state_def new_module_def)
  then show ?thesis using double_facade_run by (auto split: sum.splits)
qed






lemma once_patched_modules:
  "module_code (archive_at once_patched live_egg) ''uprop'' = Some CFacade"
  "module_code (archive_at once_patched live_egg) ''uprop2''
     = Some (COrig [(''UsageProperties'', VClass 0), (''helper'', VInt 3)]
                   [(0, [(''figure'', VFunc (Native 0))])])"
  by code_simp+

lemma once_patched_import:
  "case import_uprop (archive_at once_patched live_egg) empty_state of
     Inl e \<Rightarrow> False
   | Inr st \<Rightarrow> getattr st (VModule UPROP) ''helper'' = Inr (VInt 3)"
  by code_simp

text \<open>
  Claim C10. Let an archive hold the generated module as \<^verbatim>\<open>uprop\<close> and an original
  module with a class \<^verbatim>\<open>UsageProperties\<close> (the class object \<open>c\<close>) as \<^verbatim>\<open>uprop2\<close>, and let
  the import of \<^verbatim>\<open>pyovpn.lic.uprop\<close> in a fresh interpreter end in the state \<open>st\<close>. Then
  \<^verbatim>\<open>uprop2\<close> is loaded with the namespace of the original module, unchanged; the names
  \<^verbatim>\<open>uprop.UsageProperties\<close> and \<^verbatim>\<open>uprop2.UsageProperties\<close> are bound to the same class
  object \<open>c\<close>; the attributes of \<open>c\<close> are those the original module gave it except that
  \<^verbatim>\<open>figure\<close> is the wrapper of the generated module, so whoever reaches the class
  through \<^verbatim>\<open>uprop2\<close> gets the wrapper too. The wrapper was on the class in the state
  \<open>s2\<close> in which the re-export statement for \<^verbatim>\<open>UsageProperties\<close> ran, when the generated
  module had not bound that name yet; after that statement only rounds for other names
  followed.
\<close>

theorem facade_import_patches_alias:
  assumes "module_code z ''uprop'' = Some CFacade"
    and "module_code z ''uprop2'' = Some (COrig g cls)"
    and "map_of g ''UsageProperties'' = Some (VClass c)"
    and "import_uprop z empty_state = Inr st"
  shows "modules st UPROP2 = Some (init_globals UPROP2 @ g)
       \<and> getattr st (VModule UPROP2) ''UsageProperties'' = Inr (VClass c)
       \<and> getattr st (VModule UPROP) ''UsageProperties'' = Inr (VClass c)
       \<and> getattr st (VClass c) ''figure'' = Inr (VFunc (NewFigure UPROP))
       \<and> (\<exists>attrs f. map_of cls c = Some attrs \<and> map_of attrs ''figure'' = Some f
             \<and> classes st c = Some (AList.update ''figure'' (VFunc (NewFigure UPROP)) attrs))
       \<and> (\<exists>s2 s3 bs. getattr s2 (VClass c) ''figure'' = Inr (VFunc (NewFigure UPROP))
             \<and> get_global s2 UPROP ''UsageProperties'' = None
             \<and> reexport UPROP ''UsageProperties'' s2 = Inr s3
             \<and> ''UsageProperties'' \<notin> set bs \<and> facade_loop UPROP bs s3 = Inr st)"
proof -
  note im = import_over_original [OF assms(1,2)]
  let ?ns2 = "init_globals UPROP2 @ g"
  have cls: "map_of ?ns2 ''UsageProperties'' = Some (VClass c)"
    using assms(3) by (simp only: original_names(1))
  have ok: "facade_exec UPROP (load_orig UPROP2 g cls (new_module UPROP empty_state)) = Inr st"
    using assms(4) im(1) by simp
  from facade_exec_patched [OF im(2) im(3) cls ok] obtain attrs f where
    at: "classes (load_orig UPROP2 g cls (new_module UPROP empty_state)) c = Some attrs"
      "map_of attrs ''figure'' = Some f"
    and cp: "class_patched ?ns2 c attrs st"
    and order: "\<exists>s2 s3 bs. getattr s2 (VClass c) ''figure'' = Inr (VFunc (NewFigure UPROP))
                 \<and> get_global s2 UPROP ''UsageProperties'' = None
                 \<and> reexport UPROP ''UsageProperties'' s2 = Inr s3
                 \<and> ''UsageProperties'' \<notin> set bs \<and> facade_loop UPROP bs s3 = Inr st"
    by blast
  have a: "map_of cls c = Some attrs" using at(1) by (simp only: im(4))
  have m2: "modules st UPROP2 = Some ?ns2" using cp by (simp add: class_patched_def)
  have g2: "getattr st (VModule UPROP2) ''UsageProperties'' = Inr (VClass c)"
    using m2 cls by (simp add: getattr_def)
  have g1: "getattr st (VModule UPROP) ''UsageProperties'' = Inr (VClass c)"
    using cp by (simp add: class_patched_def getattr_global)
  have c: "classes st c = Some (AList.update ''figure'' (VFunc (NewFigure UPROP)) attrs)"
    using cp by (simp add: class_patched_def)
  have fg: "getattr st (VClass c) ''figure'' = Inr (VFunc (NewFigure UPROP))"
    using c by (simp add: getattr_def update_conv')
  show ?thesis using m2 g2 g1 fg a at(2) c order by blast
qed

theorem facade_import_patches_alias_witness:
  "\<exists>st. import_uprop (archive_at once_patched live_egg) empty_state = Inr st
     \<and> getattr st (VModule UPROP2) ''UsageProperties'' = Inr (VClass 0)
     \<and> getattr st (VModule UPROP) ''UsageProperties'' = Inr (VClass 0)
     \<and> getattr st (VClass 0) ''figure'' = Inr (VFunc (NewFigure UPROP))"
proof -
  obtain st where st: "import_uprop (archive_at once_patched live_egg) empty_state = Inr st"
    using once_patched_import by (auto split: sum.splits)
  have a: "map_of [(''UsageProperties'', VClass 0), (''helper'', VInt 3)] ''UsageProperties''
              = Some (VClass 0)" by simp
  from facade_import_patches_alias [OF once_patched_modules a st] show ?thesis using st by blast
qed

text \<open>
  Claim C4, as stated, fails. The second run on the once-patched archive deploys without
  an exception, but its rename step moves the first run's generated module over the
  alias \<^verbatim>\<open>uprop2.pyc\<close>, which held the original implementation. In the twice-patched
  archive both names hold the generated module and no member holds the original.
  Importing \<^verbatim>\<open>pyovpn.lic.uprop\<close> from it ends without an exception, but neither module
  then has a \<^verbatim>\<open>UsageProperties\<close>: the method cannot be resolved at all.
\<close>

theorem second_run_drops_original:
  "fst (patch example_env once_patched) = None
   \<and> (DEBUG, Deployed live_egg) \<in> set (log (snd (patch example_env once_patched)))
   \<and> module_code (archive_at once_patched live_egg) ''uprop2'' = Some orig_module
   \<and> module_code (archive_at twice_patched live_egg) ''uprop'' = Some CFacade
   \<and> module_code (archive_at twice_patched live_egg) ''uprop2'' = Some CFacade
   \<and> \<not> list_ex (\<lambda>m. snd m = EFile (Pyc orig_module)) (archive_at twice_patched live_egg)
   \<and> (case import_uprop (archive_at twice_patched live_egg) empty_state of
         Inl e \<Rightarrow> False
       | Inr st \<Rightarrow>
           getattr st (VModule UPROP) ''UsageProperties'' = Inl AttributeError
           \<and> getattr st (VModule UPROP2) ''UsageProperties'' = Inl AttributeError)"
  by code_simp

text \<open>
  Claim C4, amended. Take a run whose source archive already has the generated module as
  \<^verbatim>\<open>uprop.pyc\<close> (a once-patched archive), whatever it has as \<^verbatim>\<open>uprop2.pyc\<close>. The check
  for \<^verbatim>\<open>uprop.pyc\<close> passes; if the run deploys, no exception leaves it, and the deployed
  archive holds the generated module under both names, so the original implementation is
  no longer in it. Importing \<^verbatim>\<open>pyovpn.lic.uprop\<close> from that archive in a fresh
  interpreter ends without an exception and without a cycle, but neither \<^verbatim>\<open>uprop\<close> nor
  \<^verbatim>\<open>uprop2\<close> has an attribute \<^verbatim>\<open>UsageProperties\<close> afterwards, and the global
  \<^verbatim>\<open>old_figure\<close> is still \<^verbatim>\<open>None\<close>.
\<close>

theorem second_run_loses_original:
  assumes "patch env fs = (unc, w)" and "(l, Deployed e) \<in> set (log w)"
    and "glob EGG_DIR EGG_PATTERN fs = egg # es"
    and "lookup fs egg = Some (File (Zip m z))"
    and "extracted_as z [''pyovpn'', ''lic'', ''uprop.pyc''] = Some (EFile (Pyc CFacade))"
    and "distinct (map fst fs)"
  shows "unc = None
       \<and> module_code (archive_at (files w) egg) ''uprop'' = Some CFacade
       \<and> module_code (archive_at (files w) egg) ''uprop2'' = Some CFacade
       \<and> (\<exists>st. import_uprop (archive_at (files w) egg) empty_state = Inr st
             \<and> getattr st (VModule UPROP) ''UsageProperties'' = Inl AttributeError
             \<and> getattr st (VModule UPROP2) ''UsageProperties'' = Inl AttributeError
             \<and> getattr st (VModule UPROP) ''old_figure'' = Inr VNone)"
proof -
  from deployed_archive [OF assms] obtain z' where
    unc: "unc = None"
    and z': "lookup (files w) egg = Some (File (Zip ZIP_DEFLATED z'))"
      "zip_lookup z' [''pyovpn'', ''lic'', ''uprop.pyc''] = Some (EFile (Pyc CFacade))"
      "zip_lookup z' [''pyovpn'', ''lic'', ''uprop2.pyc''] = Some (EFile (Pyc CFacade))"
    by blast
  have ar: "archive_at (files w) egg = z'" using z'(1) by (simp add: archive_at_def)
  note mc = module_code_lookup(1) [OF z'(2)] module_code_lookup(2) [OF z'(3)]
  from import_double_facade [OF mc] show ?thesis using unc mc ar by simp
qed

lemma once_patched_facts:
  "(DEBUG, Deployed live_egg) \<in> set (log (snd (patch example_env once_patched)))"
  "glob EGG_DIR EGG_PATTERN once_patched = live_egg # []"
  "lookup once_patched live_egg
     = Some (File (Zip ZIP_DEFLATED (archive_at once_patched live_egg)))"
  "extracted_as (archive_at once_patched live_egg) [''pyovpn'', ''lic'', ''uprop.pyc'']
     = Some (EFile (Pyc CFacade))"
  "distinct (map fst once_patched)"
  by code_simp+

theorem second_run_loses_original_witness:
  "fst (patch example_env once_patched) = None
   \<and> module_code (archive_at twice_patched live_egg) ''uprop2'' = Some CFacade
   \<and> (\<exists>st. import_uprop (archive_at twice_patched live_egg) empty_state = Inr st
         \<and> getattr st (VModule UPROP) ''UsageProperties'' = Inl AttributeError)"
  using second_run_loses_original [OF prod.collapse [symmetric] once_patched_facts]
  by (auto simp: twice_patched_def)

end
